theory Spec2Isabelle
  imports Main "HOL-Library.Sublist"
begin

section \<open>The publish action of rush-lib (PublishAction.ts)\<close>

text \<open>
  The action sequences calls into collaborators that live outside the file: the change
  manager, the git wrapper, the registry query, the command runner and the file system.
  Every such call is recorded, in order, as an event of a trace.  What a collaborator
  answers, and whether a call throws, is a parameter of the model (the record
  \<open>world\<close>), and may depend on the trace so far; the theorems hold for every world.
  A JavaScript exception is a result value: \<open>Throw\<close> ends the remaining sequence.
\<close>

subsection \<open>Data\<close>

text \<open>
  Modelled from the spec: the declaration of the enum \<open>ChangeType\<close> (api/ChangeManagement)
  is not part of the file.  The spec lists its members as
  none, dependency, patch, minor, major, hotfix; a TypeScript numeric enum numbers its members
  from 0 in the order of declaration.  The action only tests a value for truthiness
  (\<open>none\<close> is 0), compares it with \<open>dependency\<close> and tests it for equality with \<open>hotfix\<close>,
  so all it needs of the numbering is that \<open>none\<close> is 0 and that \<open>dependency\<close> comes next,
  below the four kinds of version bump.
\<close>

datatype ChangeType = none | dependency | patch | minor | major | hotfix

fun ChangeType_value :: "ChangeType \<Rightarrow> nat" where
  "ChangeType_value none = 0"
| "ChangeType_value dependency = 1"
| "ChangeType_value patch = 2"
| "ChangeType_value minor = 3"
| "ChangeType_value major = 4"
| "ChangeType_value hotfix = 5"

text \<open>\<open>IChangeInfo\<close>: the fields the action reads; \<open>changeType\<close> and \<open>newVersion\<close> are optional.\<close>

record IChangeInfo =
  change_packageName :: string
  changeType :: "ChangeType option"
  newVersion :: "string option"

text \<open>\<open>RushConfigurationProject\<close>: the fields the action reads; \<open>version\<close> is \<open>packageJson.version\<close>.\<close>

record RushConfigurationProject =
  packageName :: string
  projectFolder :: string
  shouldPublish :: bool
  versionPolicyName :: "string option"
  version :: string

text \<open>
  \<open>RushConfiguration\<close>.  \<open>projectsByName\<close> is a JavaScript \<open>Map\<close>: an association list in
  insertion order (the order \<open>forEach\<close> visits), looked up with \<open>map_of\<close>.
\<close>

record RushConfiguration =
  projectsByName :: "(string \<times> RushConfigurationProject) list"
  changesFolder :: string
  packageManager :: string
  packageManagerToolFilename :: string
  commonTempFolder :: string

text \<open>
  The command-line parameters, after parsing: \<open>x_value\<close> is \<open>this._x.value\<close>.  A flag is a
  boolean, a string parameter is a string or undefined (\<open>None\<close>).
\<close>

record parameters =
  addCommitDetails_value :: bool
  apply_value :: bool
  includeAll_value :: bool
  npmAuthToken_value :: "string option"
  npmTag_value :: "string option"
  publish_value :: bool
  regenerateChangelogs_value :: bool
  registryUrl_value :: "string option"
  targetBranch_value :: "string option"
  prereleaseName_value :: "string option"
  suffix_value :: "string option"
  force_value :: bool
  versionPolicy_value :: "string option"
  releaseFolder_value :: "string option"
  pack_value :: bool
  releaseType_value :: "string option"

text \<open>The keys of config/api-extractor.json that \<open>_updateAPIFile\<close> reads, for a file that
  follows its schema (booleans and strings).\<close>

record apiConfig =
  generateDtsRollup :: bool
  dtsRollupTrimming :: bool
  publishFolderForInternal :: "string option"
  publishFolderForPublic :: "string option"
  publishFolderForBeta :: "string option"

type_synonym env = "(string \<times> string) list"

subsection \<open>Events, errors and the world\<close>

datatype event =
    ValidatePolicy
  | ConsoleLog string
  | RegenerateChangelogs
  | NewPrereleaseToken "string option" "string option"
  | NewChangeManager
  | ChangeManagerLoad string "string option" "string option" bool
  | ChangeManagerApply bool
  | ChangeManagerUpdateChangelog bool
  | HasUncommittedChanges
  | NewPublishGit "string option"
  | GitCheckout "string option" "bool option"
  | GitAddChanges
  | GitCommit
  | GitPush "string option"
  | GitPull
  | GitMerge string
  | GitDeleteBranch string "bool option"
  | GitAddTag bool string "string option"
  | NpmPublishedVersions string string env
  | ExecCommand bool string "string list" string env
  | JsonFileLoad string
  | FileSystemReadFolder string
  | FileSystemCopyFile string string
  | FileSystemMove string string bool

datatype error =
    Error string
  | TypeError string
  | ExternalFailure event

record world =
  fails :: "event list \<Rightarrow> event \<Rightarrow> bool"
  npm_publishedVersions :: "event list \<Rightarrow> string \<Rightarrow> string \<Rightarrow> env \<Rightarrow> string list"
  getEnvArgs :: env
  date_getTime :: nat
  changeManager_hasChanges :: bool
  changeManager_changes :: "IChangeInfo list"
  versionControl_hasUncommittedChanges :: "event list \<Rightarrow> bool"
  fileSystem_exists :: "event list \<Rightarrow> string \<Rightarrow> bool"
  jsonFile_load :: "event list \<Rightarrow> string \<Rightarrow> apiConfig"
  fileSystem_readFolder :: "event list \<Rightarrow> string \<Rightarrow> string list"
  path_join :: "string list \<Rightarrow> string"
  os_EOL :: string
  colors_green :: "string \<Rightarrow> string"

text \<open>The mutable state of a run: the trace, and the field \<open>_hotfixTagOverride\<close> of the action.\<close>

record state =
  trace :: "event list"
  hotfixTagOverride :: "string option"

definition initial :: state where
  "initial = \<lparr>trace = [], hotfixTagOverride = None\<rparr>"

datatype 'a result = Ok 'a | Throw error

type_synonym 'a action = "state \<Rightarrow> 'a result \<times> state"

definition return :: "'a \<Rightarrow> 'a action" where
  "return x s = (Ok x, s)"

definition throw :: "error \<Rightarrow> 'a action" where
  "throw e s = (Throw e, s)"

definition andThen :: "'a action \<Rightarrow> ('a \<Rightarrow> 'b action) \<Rightarrow> 'b action" where
  "andThen m f s = (case m s of (Ok x, s') \<Rightarrow> f x s' | (Throw e, s') \<Rightarrow> (Throw e, s'))"

text \<open>Statements in sequence: the first exception ends the sequence.\<close>

fun seq :: "unit action list \<Rightarrow> unit action" where
  "seq [] s = (Ok (), s)"
| "seq (a # as) s = (case a s of (Ok u, s') \<Rightarrow> seq as s' | (Throw e, s') \<Rightarrow> (Throw e, s'))"

text \<open>A call into a collaborator: recorded, then it answers or throws as the world says.\<close>

definition ask :: "world \<Rightarrow> event \<Rightarrow> (event list \<Rightarrow> 'a) \<Rightarrow> 'a action" where
  "ask w e answer s =
     (if fails w (trace s) e then Throw (ExternalFailure e) else Ok (answer (trace s)),
      s\<lparr>trace := trace s @ [e]\<rparr>)"

definition call :: "world \<Rightarrow> event \<Rightarrow> unit action" where
  "call w e = ask w e (\<lambda>h. ())"

definition console_log :: "string \<Rightarrow> unit action" where
  "console_log m s = (Ok (), s\<lparr>trace := trace s @ [ConsoleLog m]\<rparr>)"

subsection \<open>JavaScript values\<close>

text \<open>Truthiness of a \<open>string | undefined\<close>: undefined and the empty string are falsy.\<close>

fun truthy :: "string option \<Rightarrow> bool" where
  "truthy None = False"
| "truthy (Some s) = (s \<noteq> [])"

text \<open>A \<open>string | undefined\<close> inside a template literal.\<close>

fun template :: "string option \<Rightarrow> string" where
  "template None = ''undefined''"
| "template (Some s) = s"

text \<open>\<open>s.indexOf(pat)\<close>, counting from position \<open>i\<close> of the whole string; -1 when absent.\<close>

fun indexOf_from :: "string \<Rightarrow> string \<Rightarrow> nat \<Rightarrow> int" where
  "indexOf_from [] pat i = (if pat = [] then int i else - 1)"
| "indexOf_from (c # cs) pat i =
     (if take (length pat) (c # cs) = pat then int i else indexOf_from cs pat (Suc i))"

definition indexOf :: "string \<Rightarrow> string \<Rightarrow> int" where
  "indexOf s pat = indexOf_from s pat 0"

text \<open>\<open>s.substring(start)\<close>: a negative start counts as 0, one beyond the end gives the empty string.\<close>

definition substring :: "string \<Rightarrow> int \<Rightarrow> string" where
  "substring s start = drop (nat (max 0 start)) s"

text \<open>\<open>env[k] = v\<close> on an object: an existing key keeps its place.\<close>

fun env_set :: "string \<Rightarrow> string \<Rightarrow> env \<Rightarrow> env" where
  "env_set k v [] = [(k, v)]"
| "env_set k v ((k', v') # rest) =
     (if k = k' then (k, v) # rest else (k', v') # env_set k v rest)"

text \<open>A non-negative integer in a string concatenation: its decimal digits.\<close>

function string_of_nat :: "nat \<Rightarrow> string" where
  "string_of_nat n =
     (if n < 10 then [''0123456789'' ! n]
      else string_of_nat (n div 10) @ [''0123456789'' ! (n mod 10)])"
  by pat_completeness auto
termination
  by (relation "measure id") auto

declare string_of_nat.simps [simp del]

text \<open>\<open>change.changeType && change.changeType > ChangeType.dependency\<close>\<close>

definition above_dependency :: "IChangeInfo \<Rightarrow> bool" where
  "above_dependency change =
     (case changeType change of
        None \<Rightarrow> False
      | Some t \<Rightarrow> ChangeType_value t \<noteq> 0 \<and> ChangeType_value t > ChangeType_value dependency)"

subsection \<open>The methods of the action\<close>

text \<open>\<open>_validate\<close>\<close>

definition validate :: "parameters \<Rightarrow> unit action" where
  "validate p =
     (if pack_value p \<and> \<not> includeAll_value p then
        throw (Error ''--pack can only be used with --include-all'')
      else if truthy (releaseFolder_value p) \<and> \<not> pack_value p then
        throw (Error ''--release-folder can only be used with --pack'')
      else if truthy (releaseType_value p) \<and> \<not> pack_value p then
        throw (Error ''--release-type can only be used with --pack'')
      else if truthy (registryUrl_value p) \<and> pack_value p then
        throw (Error ''--registry cannot be used with --pack'')
      else return ())"

text \<open>\<open>_packageExists\<close>\<close>

definition packageExists :: "parameters \<Rightarrow> world \<Rightarrow> RushConfigurationProject \<Rightarrow> bool action" where
  "packageExists p w packageConfig =
     (let env = (if truthy (registryUrl_value p)
                 then env_set ''npm_config_registry'' (the (registryUrl_value p)) (getEnvArgs w)
                 else getEnvArgs w)
      in andThen
           (ask w (NpmPublishedVersions (packageName packageConfig) (projectFolder packageConfig) env)
              (\<lambda>h. npm_publishedVersions w h (packageName packageConfig)
                      (projectFolder packageConfig) env))
           (\<lambda>publishedVersions. return (version packageConfig \<in> set publishedVersions)))"

text \<open>
  \<open>_npmPublish\<close>.  The lookup \<open>projectsByName.get(packageName)!\<close> is a non-null assertion: on a
  missing key, reading \<open>shouldPublish\<close> of undefined throws a TypeError.
\<close>

definition npmPublish ::
  "parameters \<Rightarrow> RushConfiguration \<Rightarrow> world \<Rightarrow> string \<Rightarrow> string \<Rightarrow> unit action" where
  "npmPublish p cfg w packageName' packagePath s =
     (case map_of (projectsByName cfg) packageName' of
        None \<Rightarrow> throw (TypeError ''Cannot read property 'shouldPublish' of undefined'') s
      | Some project \<Rightarrow>
          if shouldPublish project then
            (let env = (if truthy (registryUrl_value p)
                        then env_set ''npm_config_registry'' (the (registryUrl_value p)) (getEnvArgs w)
                        else getEnvArgs w);
                 registry = (if truthy (registryUrl_value p)
                             then substring (the (registryUrl_value p))
                                    (indexOf (the (registryUrl_value p)) ''//'')
                             else ''//registry.npmjs.org/'');
                 args = [''publish'']
                   @ (if truthy (npmAuthToken_value p)
                      then [''--'' @ registry @ '':_authToken='' @ the (npmAuthToken_value p)]
                      else [])
                   @ (if truthy (npmTag_value p) then [''--tag'', the (npmTag_value p)]
                      else if truthy (hotfixTagOverride s) then [''--tag'', the (hotfixTagOverride s)]
                      else [])
                   @ (if force_value p then [''--force''] else []);
                 packageManagerToolFilename' =
                   (if packageManager cfg = ''yarn'' then ''npm''
                    else packageManagerToolFilename cfg)
             in call w (ExecCommand (publish_value p) packageManagerToolFilename' args
                          packagePath env) s)
          else return () s)"

text \<open>\<open>_calculateTarballName\<close>\<close>

definition calculateTarballName :: "RushConfigurationProject \<Rightarrow> string" where
  "calculateTarballName project =
     (let packageName' = packageName project;
          name = (if packageName' \<noteq> [] \<and> hd packageName' = CHR ''@''
                  then map (\<lambda>c. if c = CHR ''/'' then CHR ''-'' else c) (tl packageName')
                  else packageName')
      in name @ ''-'' @ version project @ ''.tgz'')"

text \<open>\<open>_updateAPIFile\<close>; \<open>copyApiFile\<close> is the callback of its \<open>readFolder(...).forEach\<close>.\<close>

definition copyApiFile :: "world \<Rightarrow> string \<Rightarrow> string \<Rightarrow> string \<Rightarrow> unit action" where
  "copyApiFile w fromApiFolderPath toApiFolderPath fileName =
     seq [call w (FileSystemCopyFile (path_join w [fromApiFolderPath, fileName])
                    (path_join w [toApiFolderPath, fileName])),
          console_log (''Copied file '' @ fileName @ '' from '' @ fromApiFolderPath
                         @ '' to '' @ toApiFolderPath)]"

definition updateAPIFile ::
  "parameters \<Rightarrow> world \<Rightarrow> string \<Rightarrow> RushConfigurationProject \<Rightarrow> unit action" where
  "updateAPIFile p w packageName' project s =
     (let apiConfigPath = path_join w [projectFolder project, ''config'', ''api-extractor.json'']
      in if fileSystem_exists w (trace s) apiConfigPath then
           andThen (ask w (JsonFileLoad apiConfigPath) (\<lambda>h. jsonFile_load w h apiConfigPath))
             (\<lambda>apiConfig.
                if generateDtsRollup apiConfig \<and> dtsRollupTrimming apiConfig then
                  (let toApiFolder = (if truthy (publishFolderForInternal apiConfig)
                                      then the (publishFolderForInternal apiConfig) else ''./dist'');
                       fromApiFolder =
                         (if releaseType_value p = Some ''public'' then
                            Some (if truthy (publishFolderForPublic apiConfig)
                                  then the (publishFolderForPublic apiConfig) else ''./dist/public'')
                          else if releaseType_value p = Some ''beta'' then
                            Some (if truthy (publishFolderForBeta apiConfig)
                                  then the (publishFolderForBeta apiConfig) else ''./dist/beta'')
                          else None)
                   in if truthy fromApiFolder then
                        (let fromApiFolderPath = path_join w [projectFolder project, the fromApiFolder];
                             toApiFolderPath = path_join w [projectFolder project, toApiFolder]
                         in (\<lambda>s'. if fileSystem_exists w (trace s') fromApiFolderPath
                                      \<and> fileSystem_exists w (trace s') toApiFolderPath then
                                     andThen
                                       (ask w (FileSystemReadFolder fromApiFolderPath)
                                          (\<lambda>h. fileSystem_readFolder w h fromApiFolderPath))
                                       (\<lambda>fileNames.
                                          seq (map (copyApiFile w fromApiFolderPath toApiFolderPath)
                                                 fileNames)) s'
                                   else return () s'))
                      else return ())
                else return ()) s
         else return () s)"

text \<open>\<open>_npmPack\<close>\<close>

definition npmPack ::
  "parameters \<Rightarrow> RushConfiguration \<Rightarrow> world \<Rightarrow> string \<Rightarrow> RushConfigurationProject \<Rightarrow> unit action"
  where
  "npmPack p cfg w packageName' project =
     seq [if truthy (releaseType_value p) \<and> releaseType_value p \<noteq> Some ''internal'' then
            (if releaseType_value p \<noteq> Some ''public'' \<and> releaseType_value p \<noteq> Some ''beta'' then
               throw (Error (''Invalid release type '' @ [CHR 0x22]
                               @ the (releaseType_value p) @ [CHR 0x22]))
             else updateAPIFile p w packageName' project)
          else return (),
          call w (ExecCommand (publish_value p) (packageManagerToolFilename cfg) [''pack'']
                    (projectFolder project) (getEnvArgs w)),
          if publish_value p then
            (let tarballName = calculateTarballName project;
                 tarballPath = path_join w [projectFolder project, tarballName];
                 destFolder = (if truthy (releaseFolder_value p) then the (releaseFolder_value p)
                               else path_join w [commonTempFolder cfg, ''artifacts'', ''packages''])
             in call w (FileSystemMove tarballPath (path_join w [destFolder, tarballName]) True))
          else return ()]"

text \<open>
  \<open>_publishAll\<close>.  The callback of \<open>allPackages.forEach\<close> assigns the local \<open>updated\<close>; here it
  takes the current value and returns the new one, and \<open>publishAll_forEach\<close> visits the entries
  of the map in order.
\<close>

definition publishAll_callback ::
  "parameters \<Rightarrow> RushConfiguration \<Rightarrow> world \<Rightarrow> string \<times> RushConfigurationProject \<Rightarrow> bool
     \<Rightarrow> bool action" where
  "publishAll_callback p cfg w entry updated =
     (case entry of (packageName', packageConfig) \<Rightarrow>
        if shouldPublish packageConfig
           \<and> (\<not> truthy (versionPolicy_value p)
                \<or> versionPolicy_value p = versionPolicyName packageConfig) then
          (if pack_value p then
             andThen (npmPack p cfg w packageName' packageConfig) (\<lambda>u. return updated)
           else
             andThen (if force_value p then return True
                      else andThen (packageExists p w packageConfig) (\<lambda>e. return (\<not> e)))
               (\<lambda>doPublish.
                  if doPublish then
                    andThen
                      (seq [npmPublish p cfg w packageName' (projectFolder packageConfig),
                            call w (GitAddTag (publish_value p \<and> \<not> truthy (registryUrl_value p))
                                      packageName' (Some (version packageConfig)))])
                      (\<lambda>u. return True)
                  else
                    andThen (console_log (''Skip '' @ packageName' @ ''. Not updated.''))
                      (\<lambda>u. return updated)))
        else return updated)"

fun publishAll_forEach ::
  "parameters \<Rightarrow> RushConfiguration \<Rightarrow> world \<Rightarrow> (string \<times> RushConfigurationProject) list \<Rightarrow> bool
     \<Rightarrow> bool action" where
  "publishAll_forEach p cfg w [] updated = return updated"
| "publishAll_forEach p cfg w (entry # rest) updated =
     andThen (publishAll_callback p cfg w entry updated) (publishAll_forEach p cfg w rest)"

definition publishAll ::
  "parameters \<Rightarrow> RushConfiguration \<Rightarrow> world \<Rightarrow> (string \<times> RushConfigurationProject) list
     \<Rightarrow> unit action" where
  "publishAll p cfg w allPackages =
     seq [console_log (''Rush publish starts with includeAll and version policy ''
                         @ template (versionPolicy_value p)),
          call w (NewPublishGit (targetBranch_value p)),
          andThen (publishAll_forEach p cfg w allPackages False)
            (\<lambda>updated. if updated then call w (GitPush (targetBranch_value p)) else return ())]"

text \<open>
  \<open>_gitAddTags\<close>, the tag pass; \<open>gitAddTag_change\<close> is the body of its loop.  Here too the
  lookup is a non-null assertion, read only when the change type is above \<open>dependency\<close>
  (\<open>&&\<close> evaluates from the left).
\<close>

definition gitAddTag_change ::
  "parameters \<Rightarrow> RushConfiguration \<Rightarrow> world \<Rightarrow> IChangeInfo \<Rightarrow> unit action" where
  "gitAddTag_change p cfg w change =
     (if above_dependency change then
        (case map_of (projectsByName cfg) (change_packageName change) of
           None \<Rightarrow> throw (TypeError ''Cannot read property 'shouldPublish' of undefined'')
         | Some project \<Rightarrow>
             if shouldPublish project then
               call w (GitAddTag (publish_value p \<and> \<not> truthy (registryUrl_value p))
                         (change_packageName change) (newVersion change))
             else return ())
      else return ())"

definition gitAddTags ::
  "parameters \<Rightarrow> RushConfiguration \<Rightarrow> world \<Rightarrow> IChangeInfo list \<Rightarrow> unit action" where
  "gitAddTags p cfg w orderedChanges = seq (map (gitAddTag_change p cfg w) orderedChanges)"

text \<open>
  \<open>_publishChanges\<close>.  \<open>overrideTag\<close> is its first loop, which stops at the first hotfix;
  \<open>publishChange\<close> is the body of its second loop, the publish pass.
\<close>

fun overrideTag :: "IChangeInfo list \<Rightarrow> unit action" where
  "overrideTag [] s = (Ok (), s)"
| "overrideTag (change # rest) s =
     (if changeType change = Some hotfix then (Ok (), s\<lparr>hotfixTagOverride := Some ''hotfix''\<rparr>)
      else overrideTag rest s)"

definition publishChange ::
  "parameters \<Rightarrow> RushConfiguration \<Rightarrow> world \<Rightarrow> (string \<times> RushConfigurationProject) list
     \<Rightarrow> IChangeInfo \<Rightarrow> unit action" where
  "publishChange p cfg w allPackages change =
     (if above_dependency change then
        (case map_of allPackages (change_packageName change) of
           Some project \<Rightarrow>
             andThen (packageExists p w project)
               (\<lambda>e. if \<not> e then npmPublish p cfg w (change_packageName change) (projectFolder project)
                    else console_log (''Skip '' @ change_packageName change @ ''. Package exists.''))
         | None \<Rightarrow>
             console_log (''Skip '' @ change_packageName change @ ''. Failed to find its project.''))
      else return ())"

definition publishChanges ::
  "parameters \<Rightarrow> RushConfiguration \<Rightarrow> world \<Rightarrow> (string \<times> RushConfigurationProject) list
     \<Rightarrow> unit action" where
  "publishChanges p cfg w allPackages =
     seq [call w NewChangeManager,
          call w (ChangeManagerLoad (changesFolder cfg) (prereleaseName_value p) (suffix_value p)
                    (addCommitDetails_value p)),
          if changeManager_hasChanges w then
            (let orderedChanges = changeManager_changes w;
                 tempBranch = ''publish-'' @ string_of_nat (date_getTime w)
             in seq [call w (NewPublishGit (targetBranch_value p)),
                     call w (GitCheckout (Some tempBranch) (Some True)),
                     call w (ChangeManagerApply (apply_value p)),
                     call w (ChangeManagerUpdateChangelog (apply_value p)),
                     andThen (ask w HasUncommittedChanges (versionControl_hasUncommittedChanges w))
                       (\<lambda>uncommitted.
                          if uncommitted then
                            seq [call w GitAddChanges,
                                 call w GitCommit,
                                 call w (GitPush (Some tempBranch)),
                                 overrideTag orderedChanges,
                                 seq (map (publishChange p cfg w allPackages) orderedChanges),
                                 gitAddTags p cfg w orderedChanges,
                                 call w (GitPush (Some tempBranch)),
                                 call w (GitCheckout (targetBranch_value p) None),
                                 call w GitPull,
                                 call w (GitMerge tempBranch),
                                 call w (GitPush (targetBranch_value p)),
                                 call w (GitDeleteBranch tempBranch None)]
                          else
                            seq [call w (GitCheckout (targetBranch_value p) None),
                                 call w (GitDeleteBranch tempBranch (Some False))])])
          else return ()]"

text \<open>
  \<open>run\<close>.  With \<open>--regenerate-changelogs\<close> the function returns before \<open>_validate\<close>; the final
  message is printed on the other path only.
\<close>

definition run :: "parameters \<Rightarrow> RushConfiguration \<Rightarrow> world \<Rightarrow> unit action" where
  "run p cfg w =
     seq [call w ValidatePolicy,
          (let allPackages = projectsByName cfg
           in if regenerateChangelogs_value p then
                seq [console_log ''Regenerating changelogs'',
                     call w RegenerateChangelogs]
              else
                seq [validate p,
                     if includeAll_value p then publishAll p cfg w allPackages
                     else seq [call w (NewPrereleaseToken (prereleaseName_value p) (suffix_value p)),
                               publishChanges p cfg w allPackages],
                     console_log (os_EOL w @ colors_green w ''Rush publish finished successfully.'')])]"

subsection \<open>Example inputs\<close>

text \<open>
  A repository with a package to publish and a private one, a world where no call fails and
  the registry knows no version, and the parameters of \<open>rush publish --apply --publish -b master\<close>.
\<close>

definition projectA :: RushConfigurationProject where
  "projectA = \<lparr>packageName = ''a'', projectFolder = ''/repo/a'', shouldPublish = True,
                versionPolicyName = None, version = ''1.0.0''\<rparr>"

definition projectB :: RushConfigurationProject where
  "projectB = \<lparr>packageName = ''b'', projectFolder = ''/repo/b'', shouldPublish = False,
                versionPolicyName = None, version = ''2.0.0''\<rparr>"

definition repo :: RushConfiguration where
  "repo = \<lparr>projectsByName = [(''a'', projectA), (''b'', projectB)],
            changesFolder = ''/repo/changes'', packageManager = ''npm'',
            packageManagerToolFilename = ''/tools/npm'', commonTempFolder = ''/repo/common/temp''\<rparr>"

definition quiet :: world where
  "quiet = \<lparr>fails = (\<lambda>h e. False),
             npm_publishedVersions = (\<lambda>h n f e. []),
             getEnvArgs = [],
             date_getTime = 7,
             changeManager_hasChanges = True,
             changeManager_changes =
               [\<lparr>change_packageName = ''a'', changeType = Some minor, newVersion = Some ''1.1.0''\<rparr>,
                \<lparr>change_packageName = ''b'', changeType = Some dependency, newVersion = None\<rparr>],
             versionControl_hasUncommittedChanges = (\<lambda>h. True),
             fileSystem_exists = (\<lambda>h f. False),
             jsonFile_load = (\<lambda>h f. \<lparr>generateDtsRollup = False, dtsRollupTrimming = False,
                                      publishFolderForInternal = None,
                                      publishFolderForPublic = None,
                                      publishFolderForBeta = None\<rparr>),
             fileSystem_readFolder = (\<lambda>h f. []),
             path_join = concat,
             os_EOL = [CHR 0x0A],
             colors_green = (\<lambda>s. s)\<rparr>"

definition flags :: parameters where
  "flags = \<lparr>addCommitDetails_value = False, apply_value = True, includeAll_value = False,
             npmAuthToken_value = None, npmTag_value = None, publish_value = True,
             regenerateChangelogs_value = False, registryUrl_value = None,
             targetBranch_value = Some ''master'', prereleaseName_value = None,
             suffix_value = None, force_value = False, versionPolicy_value = None,
             releaseFolder_value = None, pack_value = False, releaseType_value = None\<rparr>"

text \<open>The definitions a concrete run unfolds.\<close>

lemmas run_defs = run_def publishAll_def publishChanges_def publishChange_def gitAddTags_def
  gitAddTag_change_def publishAll_callback_def npmPublish_def npmPack_def packageExists_def
  validate_def call_def ask_def console_log_def andThen_def return_def throw_def initial_def
  above_dependency_def string_of_nat.simps Let_def

lemmas example_defs = flags_def repo_def quiet_def projectA_def projectB_def

lemma example_changes_run:
  "run flags repo quiet initial =
     (Ok (), \<lparr>trace =
        [ValidatePolicy, NewPrereleaseToken None None, NewChangeManager,
         ChangeManagerLoad ''/repo/changes'' None None False, NewPublishGit (Some ''master''),
         GitCheckout (Some ''publish-7'') (Some True), ChangeManagerApply True,
         ChangeManagerUpdateChangelog True, HasUncommittedChanges, GitAddChanges, GitCommit,
         GitPush (Some ''publish-7'')]
        @ [NpmPublishedVersions ''a'' ''/repo/a'' [],
           ExecCommand True ''/tools/npm'' [''publish''] ''/repo/a'' []]
        @ [GitAddTag True ''a'' (Some ''1.1.0''), GitPush (Some ''publish-7''),
           GitCheckout (Some ''master'') None, GitPull, GitMerge ''publish-7'',
           GitPush (Some ''master''), GitDeleteBranch ''publish-7'' None,
           ConsoleLog (CHR 0x0A # ''Rush publish finished successfully.'')],
        hotfixTagOverride = None\<rparr>)"
  by (simp add: run_defs example_defs)

lemma example_all_run:
  "run (flags\<lparr>includeAll_value := True\<rparr>) repo quiet initial =
     (Ok (), \<lparr>trace =
        [ValidatePolicy,
         ConsoleLog ''Rush publish starts with includeAll and version policy undefined'',
         NewPublishGit (Some ''master''), NpmPublishedVersions ''a'' ''/repo/a'' [],
         ExecCommand True ''/tools/npm'' [''publish''] ''/repo/a'' [],
         GitAddTag True ''a'' (Some ''1.0.0''), GitPush (Some ''master''),
         ConsoleLog (CHR 0x0A # ''Rush publish finished successfully.'')],
        hotfixTagOverride = None\<rparr>)"
  by (simp add: run_defs example_defs)

subsection \<open>Reasoning about traces\<close>

text \<open>
  \<open>trace_ok P tr\<close>: every event of the trace satisfies \<open>P\<close>, which also sees the events before
  it.  The publish commands and the \<open>addTag\<close> calls are the events the properties below are
  about; \<open>plain\<close> events are all the others, and \<open>aux\<close> events are those that packing a project
  or asking the registry adds.  \<open>stable_on C I\<close>: the assertion \<open>I\<close> survives an event of class
  \<open>C\<close>.  \<open>hoare P a Q\<close>: from a state with \<open>P\<close>, the action \<open>a\<close> ends in a state with \<open>Q\<close>, whether it
  returns or throws; \<open>hoare_r\<close> lets the assertion after the action see its result.
\<close>

definition trace_ok :: "(event list \<Rightarrow> event \<Rightarrow> bool) \<Rightarrow> event list \<Rightarrow> bool" where
  "trace_ok P tr = (\<forall>pre e post. tr = pre @ e # post \<longrightarrow> P pre e)"

abbreviation inv :: "(event list \<Rightarrow> event \<Rightarrow> bool) \<Rightarrow> state \<Rightarrow> bool" where
  "inv P \<equiv> (\<lambda>s. trace_ok P (trace s))"

fun is_npm_publish :: "event \<Rightarrow> bool" where
  "is_npm_publish (ExecCommand b tool args path env) = (args \<noteq> [] \<and> hd args = ''publish'')"
| "is_npm_publish e = False"

fun is_tag :: "event \<Rightarrow> bool" where
  "is_tag (GitAddTag b n v) = True"
| "is_tag e = False"

definition plain :: "event \<Rightarrow> bool" where
  "plain e = (\<not> is_npm_publish e \<and> \<not> is_tag e)"

fun aux :: "event \<Rightarrow> bool" where
  "aux (ConsoleLog m) = True"
| "aux (NpmPublishedVersions n f e) = True"
| "aux (ExecCommand b tool args path env) = (args = [''pack''])"
| "aux (JsonFileLoad f) = True"
| "aux (FileSystemReadFolder f) = True"
| "aux (FileSystemCopyFile a b) = True"
| "aux (FileSystemMove a b c) = True"
| "aux e = False"

definition stable_on :: "(event \<Rightarrow> bool) \<Rightarrow> (state \<Rightarrow> bool) \<Rightarrow> bool" where
  "stable_on C I = (\<forall>e s. C e \<and> I s \<longrightarrow> I (s\<lparr>trace := trace s @ [e]\<rparr>))"

definition hoare :: "(state \<Rightarrow> bool) \<Rightarrow> 'a action \<Rightarrow> (state \<Rightarrow> bool) \<Rightarrow> bool" where
  "hoare P a Q = (\<forall>s. P s \<longrightarrow> Q (snd (a s)))"

definition hoare_r :: "(state \<Rightarrow> bool) \<Rightarrow> 'a action \<Rightarrow> ('a result \<Rightarrow> state \<Rightarrow> bool) \<Rightarrow> bool" where
  "hoare_r P a Q = (\<forall>s. P s \<longrightarrow> Q (fst (a s)) (snd (a s)))"

lemma trace_ok_Nil: "trace_ok P []"
  by (simp add: trace_ok_def)

lemma trace_ok_snoc: "trace_ok P (tr @ [e]) = (trace_ok P tr \<and> P tr e)"
proof
  assume h: "trace_ok P (tr @ [e])"
  have "P tr e" using h unfolding trace_ok_def by blast
  moreover have "trace_ok P tr"
    unfolding trace_ok_def
  proof (intro allI impI)
    fix pre x post assume "tr = pre @ x # post"
    then have "tr @ [e] = pre @ x # (post @ [e])" by simp
    then show "P pre x" using h unfolding trace_ok_def by blast
  qed
  ultimately show "trace_ok P tr \<and> P tr e" by simp
next
  assume h: "trace_ok P tr \<and> P tr e"
  show "trace_ok P (tr @ [e])"
    unfolding trace_ok_def
  proof (intro allI impI)
    fix pre x post assume eq: "tr @ [e] = pre @ x # post"
    show "P pre x"
    proof (cases post rule: rev_cases)
      case Nil
      with eq have "pre = tr" "x = e" by auto
      then show ?thesis using h by simp
    next
      case (snoc post' y)
      with eq have "tr = pre @ x # post'" by (metis append_Cons append_assoc butlast_snoc)
      then show ?thesis using h unfolding trace_ok_def by blast
    qed
  qed
qed

lemma trace_okD: "trace_ok P tr \<Longrightarrow> tr = pre @ e # post \<Longrightarrow> P pre e"
  unfolding trace_ok_def by blast

lemma trace_ok_memD: "trace_ok (\<lambda>pre. Q) tr \<Longrightarrow> e \<in> set tr \<Longrightarrow> Q e"
  unfolding trace_ok_def by (auto dest!: split_list)

lemma aux_plain: "aux e \<Longrightarrow> plain e"
  by (cases e) (auto simp: plain_def)

lemma stable_on_plain_aux: "stable_on plain I \<Longrightarrow> stable_on aux I"
  unfolding stable_on_def using aux_plain by blast

lemma stable_onD: "stable_on C I \<Longrightarrow> C e \<Longrightarrow> I s \<Longrightarrow> I (s\<lparr>trace := trace s @ [e]\<rparr>)"
  unfolding stable_on_def by blast

lemma stable_on_inv: "(\<And>e pre. C e \<Longrightarrow> P pre e) \<Longrightarrow> stable_on C (inv P)"
  by (simp add: stable_on_def trace_ok_snoc)

subsection \<open>Assertions on the state before and after an action\<close>

lemma hoareD: "hoare P a Q \<Longrightarrow> P s \<Longrightarrow> Q (snd (a s))"
  by (simp add: hoare_def)

lemma hoare_weaken:
  "hoare P' a Q' \<Longrightarrow> (\<And>s. P s \<Longrightarrow> P' s) \<Longrightarrow> (\<And>s. Q' s \<Longrightarrow> Q s) \<Longrightarrow> hoare P a Q"
  by (simp add: hoare_def)

lemma hoare_return: "hoare P (return x) P"
  by (simp add: hoare_def return_def)

lemma hoare_throw: "hoare P (throw e) P"
  by (simp add: hoare_def throw_def)

lemma hoare_andThen_r:
  assumes "hoare_r P m Q" and "\<And>x. hoare (Q (Ok x)) (f x) R" and "\<And>e s. Q (Throw e) s \<Longrightarrow> R s"
  shows "hoare P (andThen m f) R"
  unfolding hoare_def andThen_def
proof (intro allI impI)
  fix s :: state
  assume "P s"
  then have q: "Q (fst (m s)) (snd (m s))" using assms(1) by (simp add: hoare_r_def)
  show "R (snd (case m s of (Ok x, s') \<Rightarrow> f x s' | (Throw e, s') \<Rightarrow> (Throw e, s')))"
  proof (cases "m s")
    case (Pair r s')
    show ?thesis
    proof (cases r)
      case (Ok x)
      then show ?thesis using Pair q assms(2) [of x] by (simp add: hoare_def)
    next
      case (Throw e)
      then show ?thesis using Pair q assms(3) by simp
    qed
  qed
qed

lemma hoare_andThen:
  assumes "hoare P m Q" and "\<And>x. hoare Q (f x) R" and "\<And>s. Q s \<Longrightarrow> R s"
  shows "hoare P (andThen m f) R"
proof (rule hoare_andThen_r [where Q = "\<lambda>r. Q"])
  show "hoare_r P m (\<lambda>r. Q)" using assms(1) by (simp add: hoare_def hoare_r_def)
qed (use assms in auto)

lemma hoare_andThen_inv:
  "hoare I m I \<Longrightarrow> (\<And>x. hoare I (f x) I) \<Longrightarrow> hoare I (andThen m f) I"
  by (rule hoare_andThen)

lemma hoare_seq_Nil: "hoare P (seq []) P"
  by (simp add: hoare_def)

lemma hoare_seq_Cons:
  assumes "hoare P a Q" and "hoare Q (seq as) R" and "\<And>s. Q s \<Longrightarrow> R s"
  shows "hoare P (seq (a # as)) R"
  unfolding hoare_def
proof (intro allI impI)
  fix s :: state
  assume "P s"
  then have q: "Q (snd (a s))" using assms(1) by (simp add: hoare_def)
  show "R (snd (seq (a # as) s))"
  proof (cases "a s")
    case (Pair x s')
    then show ?thesis using q assms(2,3) by (cases x) (auto simp: hoare_def)
  qed
qed

lemma hoare_seq_Cons_inv: "hoare I a I \<Longrightarrow> hoare I (seq as) I \<Longrightarrow> hoare I (seq (a # as)) I"
  by (rule hoare_seq_Cons)

lemma hoare_seq_inv: "(\<And>a. a \<in> set as \<Longrightarrow> hoare I a I) \<Longrightarrow> hoare I (seq as) I"
proof (induction as)
  case Nil
  show ?case by (rule hoare_seq_Nil)
next
  case (Cons a as)
  show ?case
  proof (rule hoare_seq_Cons_inv)
    show "hoare I a I" using Cons.prems by simp
    show "hoare I (seq as) I" using Cons by simp
  qed
qed

lemma hoare_seq_map: "(\<And>x. x \<in> set xs \<Longrightarrow> hoare I (f x) I) \<Longrightarrow> hoare I (seq (map f xs)) I"
  by (rule hoare_seq_inv) auto

lemma hoare_ask: "(\<And>s. P s \<Longrightarrow> Q (s\<lparr>trace := trace s @ [e]\<rparr>)) \<Longrightarrow> hoare P (ask w e f) Q"
  by (simp add: hoare_def ask_def)

lemma hoare_call: "(\<And>s. P s \<Longrightarrow> Q (s\<lparr>trace := trace s @ [e]\<rparr>)) \<Longrightarrow> hoare P (call w e) Q"
  by (simp add: call_def hoare_ask)

lemma hoare_console_log:
  "(\<And>s. P s \<Longrightarrow> Q (s\<lparr>trace := trace s @ [ConsoleLog m]\<rparr>)) \<Longrightarrow> hoare P (console_log m) Q"
  by (simp add: hoare_def console_log_def)

lemma hoare_if: "(c \<Longrightarrow> hoare P a Q) \<Longrightarrow> (\<not> c \<Longrightarrow> hoare P b Q) \<Longrightarrow> hoare P (if c then a else b) Q"
  by simp

lemma hoare_state_if:
  "hoare P a Q \<Longrightarrow> hoare P b Q \<Longrightarrow> hoare P (\<lambda>s. if c s then a s else b s) Q"
  by (simp add: hoare_def)

lemmas seq_inv = hoare_seq_Cons_inv hoare_seq_Nil hoare_if hoare_return hoare_throw
  hoare_andThen_inv

lemma call_stable: "stable_on C I \<Longrightarrow> C e \<Longrightarrow> hoare I (call w e) I"
  by (rule hoare_call) (rule stable_onD)

lemma ask_stable: "stable_on C I \<Longrightarrow> C e \<Longrightarrow> hoare I (ask w e f) I"
  by (rule hoare_ask) (rule stable_onD)

lemma log_stable: "stable_on C I \<Longrightarrow> C (ConsoleLog m) \<Longrightarrow> hoare I (console_log m) I"
  by (rule hoare_console_log) (rule stable_onD)

lemma hoare_validate: "hoare P (validate p) P"
  by (simp add: validate_def hoare_throw hoare_return)

lemma hoare_forEach:
  "(\<And>entry updated. entry \<in> set xs \<Longrightarrow> hoare I (publishAll_callback p cfg w entry updated) I)
   \<Longrightarrow> hoare I (publishAll_forEach p cfg w xs updated) I"
proof (induction xs arbitrary: updated)
  case Nil
  show ?case by (simp add: hoare_return)
next
  case (Cons x xs)
  show ?case
    unfolding publishAll_forEach.simps
  proof (rule hoare_andThen_inv)
    show "hoare I (publishAll_callback p cfg w x updated) I" using Cons.prems by simp
    show "hoare I (publishAll_forEach p cfg w xs u) I" for u using Cons by simp
  qed
qed

subsection \<open>What each method may add to the trace\<close>

lemma copyApiFile_stable: "stable_on aux I \<Longrightarrow> hoare I (copyApiFile w a b f) I"
  unfolding copyApiFile_def
  by (intro seq_inv call_stable [where C = aux] log_stable [where C = aux]) simp_all

lemma updateAPIFile_stable:
  assumes "stable_on aux I"
  shows "hoare I (updateAPIFile p w n project) I"
  unfolding updateAPIFile_def Let_def
  by (intro seq_inv hoare_state_if hoare_seq_map ask_stable [OF assms]
        copyApiFile_stable [OF assms])
     simp_all

lemma npmPack_stable:
  assumes "stable_on aux I"
  shows "hoare I (npmPack p cfg w n project) I"
  unfolding npmPack_def Let_def
  by (intro seq_inv call_stable [OF assms] updateAPIFile_stable [OF assms]) simp_all

lemma packageExists_stable:
  assumes "stable_on aux I"
  shows "hoare I (packageExists p w pkg) I"
  unfolding packageExists_def Let_def
  by (intro seq_inv ask_stable [OF assms]) simp_all

lemma publishAll_stable:
  assumes "stable_on plain I"
    and "\<And>entry updated. entry \<in> set allPackages
           \<Longrightarrow> hoare I (publishAll_callback p cfg w entry updated) I"
  shows "hoare I (publishAll p cfg w allPackages) I"
  unfolding publishAll_def
  by (intro seq_inv log_stable [OF assms(1)] call_stable [OF assms(1)] hoare_forEach assms(2))
     (simp_all add: plain_def)

lemma publishChanges_stable:
  assumes "stable_on plain I"
    and "hoare I (overrideTag (changeManager_changes w)) I"
    and "\<And>change. change \<in> set (changeManager_changes w)
           \<Longrightarrow> hoare I (publishChange p cfg w allPackages change) I"
    and "\<And>change. change \<in> set (changeManager_changes w)
           \<Longrightarrow> hoare I (gitAddTag_change p cfg w change) I"
  shows "hoare I (publishChanges p cfg w allPackages) I"
  unfolding publishChanges_def gitAddTags_def Let_def
  by (intro seq_inv call_stable [OF assms(1)] ask_stable [OF assms(1)] assms(2)
        hoare_seq_map assms(3) assms(4))
     (simp_all add: plain_def)

lemma run_stable:
  assumes "stable_on plain I"
    and "includeAll_value p \<Longrightarrow> hoare I (publishAll p cfg w (projectsByName cfg)) I"
    and "\<not> includeAll_value p \<Longrightarrow> hoare I (publishChanges p cfg w (projectsByName cfg)) I"
  shows "hoare I (run p cfg w) I"
  unfolding run_def Let_def
  by (intro seq_inv call_stable [OF assms(1)] log_stable [OF assms(1)] hoare_validate
            assms(2) assms(3))
     (simp_all add: plain_def)

lemma overrideTag_trace: "trace (snd (overrideTag cs s)) = trace s"
  by (induction cs) auto

lemma hoare_overrideTag_trace: "hoare (\<lambda>s. I (trace s)) (overrideTag cs) (\<lambda>s. I (trace s))"
  by (simp add: hoare_def overrideTag_trace)

text \<open>The environment \<open>_npmPublish\<close> and \<open>_packageExists\<close> both build, the registry query
  for a project, and the command \<open>_npmPublish\<close> runs.\<close>

definition registryEnv :: "parameters \<Rightarrow> world \<Rightarrow> env" where
  "registryEnv p w =
     (if truthy (registryUrl_value p)
      then env_set ''npm_config_registry'' (the (registryUrl_value p)) (getEnvArgs w)
      else getEnvArgs w)"

definition query :: "parameters \<Rightarrow> world \<Rightarrow> RushConfigurationProject \<Rightarrow> event" where
  "query p w pkg = NpmPublishedVersions (packageName pkg) (projectFolder pkg) (registryEnv p w)"

definition published ::
  "parameters \<Rightarrow> world \<Rightarrow> event list \<Rightarrow> RushConfigurationProject \<Rightarrow> string list" where
  "published p w h pkg =
     npm_publishedVersions w h (packageName pkg) (projectFolder pkg) (registryEnv p w)"

definition publishArgs :: "parameters \<Rightarrow> string option \<Rightarrow> string list" where
  "publishArgs p override =
     [''publish'']
     @ (if truthy (npmAuthToken_value p)
        then [''--''
              @ (if truthy (registryUrl_value p)
                 then substring (the (registryUrl_value p)) (indexOf (the (registryUrl_value p)) ''//'')
                 else ''//registry.npmjs.org/'')
              @ '':_authToken='' @ the (npmAuthToken_value p)]
        else [])
     @ (if truthy (npmTag_value p) then [''--tag'', the (npmTag_value p)]
        else if truthy override then [''--tag'', the override]
        else [])
     @ (if force_value p then [''--force''] else [])"

definition publishCommand ::
  "parameters \<Rightarrow> RushConfiguration \<Rightarrow> world \<Rightarrow> string option \<Rightarrow> string \<Rightarrow> event" where
  "publishCommand p cfg w override path =
     ExecCommand (publish_value p)
       (if packageManager cfg = ''yarn'' then ''npm'' else packageManagerToolFilename cfg)
       (publishArgs p override) path (registryEnv p w)"

definition queried ::
  "parameters \<Rightarrow> world \<Rightarrow> RushConfigurationProject \<Rightarrow> (state \<Rightarrow> bool) \<Rightarrow> bool result \<Rightarrow> state
     \<Rightarrow> bool" where
  "queried p w pkg I r s' =
     (\<exists>s. I s \<and> s' = s\<lparr>trace := trace s @ [query p w pkg]\<rparr>
        \<and> (\<forall>e. r = Ok e \<longrightarrow> e = (version pkg \<in> set (published p w (trace s) pkg))))"

definition decided ::
  "parameters \<Rightarrow> world \<Rightarrow> RushConfigurationProject \<Rightarrow> (state \<Rightarrow> bool) \<Rightarrow> bool result \<Rightarrow> state
     \<Rightarrow> bool" where
  "decided p w pkg I r s =
     (if force_value p then I s
      else queried p w pkg I (case r of Ok d \<Rightarrow> Ok (\<not> d) | Throw e \<Rightarrow> Throw e) s)"

lemma packageExists_eq:
  "packageExists p w pkg s =
     (if fails w (trace s) (query p w pkg) then Throw (ExternalFailure (query p w pkg))
      else Ok (version pkg \<in> set (published p w (trace s) pkg)),
      s\<lparr>trace := trace s @ [query p w pkg]\<rparr>)"
  unfolding packageExists_def andThen_def ask_def return_def Let_def query_def published_def
    registryEnv_def
  by simp

lemma npmPublish_None:
  "map_of (projectsByName cfg) n = None \<Longrightarrow>
   npmPublish p cfg w n path s
     = (Throw (TypeError ''Cannot read property 'shouldPublish' of undefined''), s)"
  by (simp add: npmPublish_def throw_def)

lemma npmPublish_skip:
  "map_of (projectsByName cfg) n = Some project \<Longrightarrow> \<not> shouldPublish project \<Longrightarrow>
   npmPublish p cfg w n path s = (Ok (), s)"
  by (simp add: npmPublish_def return_def)

lemma npmPublish_command:
  "map_of (projectsByName cfg) n = Some project \<Longrightarrow> shouldPublish project \<Longrightarrow>
   npmPublish p cfg w n path s = call w (publishCommand p cfg w (hotfixTagOverride s) path) s"
  by (simp add: npmPublish_def publishCommand_def publishArgs_def registryEnv_def Let_def)

lemma is_npm_publish_publishCommand [simp]: "is_npm_publish (publishCommand p cfg w override path)"
  by (simp add: publishCommand_def publishArgs_def)

lemma publishCommand_not_tag [simp]: "\<not> is_tag (publishCommand p cfg w override path)"
  by (simp add: publishCommand_def)

lemma packageExists_hoare_r: "hoare_r I (packageExists p w pkg) (queried p w pkg I)"
  unfolding hoare_r_def queried_def
proof (intro allI impI)
  fix s :: state assume "I s"
  show "\<exists>s0. I s0
        \<and> snd (packageExists p w pkg s) = s0\<lparr>trace := trace s0 @ [query p w pkg]\<rparr>
        \<and> (\<forall>e. fst (packageExists p w pkg s) = Ok e \<longrightarrow>
              e = (version pkg \<in> set (published p w (trace s0) pkg)))"
    by (rule exI [of _ s]) (simp add: packageExists_eq \<open>I s\<close>)
qed

lemma decide_publish_hoare_r:
  "hoare_r I (if force_value p then return True
              else andThen (packageExists p w pkg) (\<lambda>e. return (\<not> e)))
     (decided p w pkg I)"
  unfolding hoare_r_def queried_def decided_def
  by (auto simp: return_def andThen_def packageExists_eq)

lemma npmPublish_hoare:
  assumes "\<And>s. P s \<Longrightarrow> Q s"
    and "\<And>s project. P s \<Longrightarrow> map_of (projectsByName cfg) n = Some project
           \<Longrightarrow> shouldPublish project
           \<Longrightarrow> Q (s\<lparr>trace := trace s @ [publishCommand p cfg w (hotfixTagOverride s) path]\<rparr>)"
  shows "hoare P (npmPublish p cfg w n path) Q"
  unfolding hoare_def
proof (intro allI impI)
  fix s :: state assume P: "P s"
  show "Q (snd (npmPublish p cfg w n path s))"
  proof (cases "map_of (projectsByName cfg) n")
    case None
    then show ?thesis using assms(1) [OF P] by (simp add: npmPublish_None)
  next
    case (Some project)
    then show ?thesis using assms(1) [OF P] assms(2) [OF P Some]
      by (cases "shouldPublish project")
         (simp_all add: npmPublish_skip npmPublish_command call_def ask_def)
  qed
qed

lemma gitAddTag_change_hoare:
  assumes "\<And>s. P s \<Longrightarrow> Q s"
    and "\<And>s project. P s \<Longrightarrow> map_of (projectsByName cfg) (change_packageName change) = Some project
           \<Longrightarrow> shouldPublish project \<Longrightarrow> above_dependency change
           \<Longrightarrow> Q (s\<lparr>trace := trace s @ [GitAddTag (publish_value p \<and> \<not> truthy (registryUrl_value p))
                                             (change_packageName change) (newVersion change)]\<rparr>)"
  shows "hoare P (gitAddTag_change p cfg w change) Q"
  unfolding gitAddTag_change_def hoare_def
  using assms by (auto simp: return_def throw_def call_def ask_def split: option.splits)

text \<open>A method that adds publish commands and tags only where the assertion allows any.\<close>

lemma publishChange_stable:
  assumes "stable_on aux I"
    and "\<And>s path. I s \<Longrightarrow>
           I (s\<lparr>trace := trace s @ [publishCommand p cfg w (hotfixTagOverride s) path]\<rparr>)"
  shows "hoare I (publishChange p cfg w allPackages change) I"
proof (cases "above_dependency change")
  case False
  then show ?thesis by (simp add: publishChange_def hoare_return)
next
  case True
  show ?thesis
  proof (cases "map_of allPackages (change_packageName change)")
    case None
    then show ?thesis using True by (simp add: publishChange_def log_stable [OF assms(1)])
  next
    case (Some project)
    have "hoare I
            (andThen (packageExists p w project)
               (\<lambda>e. if \<not> e then npmPublish p cfg w (change_packageName change) (projectFolder project)
                    else console_log (''Skip '' @ change_packageName change @ ''. Package exists.'')))
            I"
      by (intro seq_inv packageExists_stable [OF assms(1)] log_stable [OF assms(1)]
            npmPublish_hoare assms(2))
         simp_all
    then show ?thesis using True Some by (simp add: publishChange_def)
  qed
qed

lemma publishAll_callback_stable:
  assumes "stable_on aux I"
    and "\<And>s path. I s \<Longrightarrow>
           I (s\<lparr>trace := trace s @ [publishCommand p cfg w (hotfixTagOverride s) path]\<rparr>)"
    and "\<And>s n v. I s \<Longrightarrow>
           I (s\<lparr>trace := trace s @ [GitAddTag (publish_value p \<and> \<not> truthy (registryUrl_value p)) n v]\<rparr>)"
  shows "hoare I (publishAll_callback p cfg w entry updated) I"
proof -
  obtain name pkg where entry: "entry = (name, pkg)" by (cases entry)
  show ?thesis
    unfolding publishAll_callback_def entry prod.case
    by (intro seq_inv packageExists_stable [OF assms(1)] log_stable [OF assms(1)]
          npmPack_stable [OF assms(1)] npmPublish_hoare assms(2) hoare_call assms(3))
       simp_all
qed

subsection \<open>Publishing only what may be published\<close>

fun publish_allowed ::
  "parameters \<Rightarrow> RushConfiguration \<Rightarrow> world \<Rightarrow> event list \<Rightarrow> event \<Rightarrow> bool" where
  "publish_allowed p cfg w pre (ExecCommand b tool args path env) =
     (args \<noteq> [] \<and> hd args = ''publish'' \<longrightarrow>
        (\<exists>entry \<in> set (projectsByName cfg).
           path = projectFolder (snd entry) \<and> shouldPublish (snd entry)
           \<and> (force_value p
              \<or> (\<exists>pre'. pre = pre' @ [query p w (snd entry)]
                    \<and> version (snd entry) \<notin> set (published p w pre' (snd entry))))))"
| "publish_allowed p cfg w pre e = True"

lemma publish_allowed_other: "\<not> is_npm_publish e \<Longrightarrow> publish_allowed p cfg w pre e"
  by (cases e) auto

lemma stable_publish_allowed: "stable_on plain (inv (publish_allowed p cfg w))"
  by (rule stable_on_inv) (simp add: plain_def publish_allowed_other)

lemma queried_inv:
  "queried p w pkg (inv (publish_allowed p cfg w)) r s \<Longrightarrow> inv (publish_allowed p cfg w) s"
  unfolding queried_def by (auto simp: trace_ok_snoc query_def)

lemma publish_after_query:
  assumes "queried p w pkg (inv (publish_allowed p cfg w)) (Ok False) s"
    and "(n, pkg) \<in> set (projectsByName cfg)" and "shouldPublish pkg"
  shows "inv (publish_allowed p cfg w)
           (s\<lparr>trace := trace s @ [publishCommand p cfg w override (projectFolder pkg)]\<rparr>)"
proof -
  from assms(1) obtain s0 where I: "trace_ok (publish_allowed p cfg w) (trace s0)"
    and s: "s = s0\<lparr>trace := trace s0 @ [query p w pkg]\<rparr>"
    and v: "version pkg \<notin> set (published p w (trace s0) pkg)"
    unfolding queried_def by auto
  have "publish_allowed p cfg w (trace s) (publishCommand p cfg w override (projectFolder pkg))"
    unfolding publishCommand_def
    using assms(2,3) s v by (auto intro!: bexI [of _ "(n, pkg)"])
  moreover have "trace_ok (publish_allowed p cfg w) (trace s)"
    using I s by (simp add: trace_ok_snoc query_def)
  ultimately show ?thesis by (simp add: trace_ok_snoc)
qed

lemma publishChange_allowed:
  "hoare (inv (publish_allowed p cfg w)) (publishChange p cfg w (projectsByName cfg) change)
     (inv (publish_allowed p cfg w))"
proof (cases "above_dependency change")
  case False
  then show ?thesis by (simp add: publishChange_def hoare_return)
next
  case True
  let ?I = "inv (publish_allowed p cfg w)"
  note st = stable_publish_allowed [of p cfg w]
  show ?thesis
  proof (cases "map_of (projectsByName cfg) (change_packageName change)")
    case None
    then show ?thesis using True
      by (simp add: publishChange_def log_stable [OF st] plain_def)
  next
    case (Some project)
    have mem: "(change_packageName change, project) \<in> set (projectsByName cfg)"
      using Some by (rule map_of_SomeD)
    have "hoare ?I
            (andThen (packageExists p w project)
               (\<lambda>e. if \<not> e then npmPublish p cfg w (change_packageName change) (projectFolder project)
                    else console_log (''Skip '' @ change_packageName change @ ''. Package exists.'')))
            ?I"
    proof (rule hoare_andThen_r [OF packageExists_hoare_r])
      fix e
      show "hoare (queried p w project ?I (Ok e))
              (if \<not> e then npmPublish p cfg w (change_packageName change) (projectFolder project)
               else console_log (''Skip '' @ change_packageName change @ ''. Package exists.''))
              ?I"
      proof (cases e)
        case True
        have "hoare (queried p w project ?I (Ok e))
                (console_log (''Skip '' @ change_packageName change @ ''. Package exists.'')) ?I"
          by (rule hoare_weaken [OF log_stable [OF st]]) (auto simp: plain_def dest: queried_inv)
        then show ?thesis by (simp only: True not_True_eq_False if_False)
      next
        case False
        have "hoare (queried p w project ?I (Ok False))
                (npmPublish p cfg w (change_packageName change) (projectFolder project)) ?I"
        proof (rule npmPublish_hoare)
          fix s assume "queried p w project ?I (Ok False) s"
          then show "?I s" by (rule queried_inv)
        next
          fix s :: state and project'
          assume q: "queried p w project ?I (Ok False) s"
            and "map_of (projectsByName cfg) (change_packageName change) = Some project'"
            and "shouldPublish project'"
          then have "shouldPublish project" using Some by simp
          from publish_after_query [OF q mem this]
          show "?I (s\<lparr>trace := trace s @ [publishCommand p cfg w (hotfixTagOverride s)
                                             (projectFolder project)]\<rparr>)" .
        qed
        then show ?thesis by (simp only: False not_False_eq_True if_True)
      qed
    next
      fix e s assume "queried p w project ?I (Throw e) s"
      then show "?I s" by (rule queried_inv)
    qed
    then show ?thesis using True Some by (simp add: publishChange_def)
  qed
qed

lemma publishAll_callback_allowed:
  assumes mem: "entry \<in> set (projectsByName cfg)"
  shows "hoare (inv (publish_allowed p cfg w)) (publishAll_callback p cfg w entry updated)
           (inv (publish_allowed p cfg w))"
proof -
  let ?I = "inv (publish_allowed p cfg w)"
  note st = stable_publish_allowed [of p cfg w]
  note sta = stable_on_plain_aux [OF st]
  obtain name pkg where entry: "entry = (name, pkg)" by (cases entry)
  let ?tag = "call w (GitAddTag (publish_value p \<and> \<not> truthy (registryUrl_value p))
                        name (Some (version pkg)))"
  let ?publish = "andThen (seq [npmPublish p cfg w name (projectFolder pkg), ?tag])
                    (\<lambda>u. return True)"
  let ?skip = "andThen (console_log (''Skip '' @ name @ ''. Not updated.''))
                 (\<lambda>u. return updated)"
  have tag: "hoare ?I ?tag ?I"
    by (rule hoare_call) (simp add: trace_ok_snoc)
  show ?thesis
  proof (cases "shouldPublish pkg \<and> (\<not> truthy (versionPolicy_value p)
                  \<or> versionPolicy_value p = versionPolicyName pkg)")
    case False
    then show ?thesis by (auto simp: publishAll_callback_def entry hoare_return)
  next
    case q: True
    show ?thesis
    proof (cases "pack_value p")
      case True
      have "hoare ?I (andThen (npmPack p cfg w name pkg) (\<lambda>u. return updated)) ?I"
        by (intro seq_inv npmPack_stable [OF sta])
      then show ?thesis using q True by (simp add: publishAll_callback_def entry)
    next
      case False
      have "hoare ?I
              (andThen (if force_value p then return True
                        else andThen (packageExists p w pkg) (\<lambda>e. return (\<not> e)))
                 (\<lambda>doPublish. if doPublish then ?publish else ?skip)) ?I"
      proof (rule hoare_andThen_r [OF decide_publish_hoare_r])
        fix d
        let ?Q = "decided p w pkg ?I (Ok d)"
        have QI: "?Q s \<Longrightarrow> ?I s" for s
          by (auto simp: decided_def dest: queried_inv split: if_splits)
        have pub: "hoare ?Q (npmPublish p cfg w name (projectFolder pkg)) ?I" if d
        proof (rule npmPublish_hoare)
          fix s assume "?Q s" then show "?I s" by (rule QI)
        next
          fix s :: state and project
          assume Q: "?Q s"
          show "?I (s\<lparr>trace := trace s @ [publishCommand p cfg w (hotfixTagOverride s)
                                             (projectFolder pkg)]\<rparr>)"
          proof (cases "force_value p")
            case True
            then have "?I s" using Q by (simp add: decided_def)
            moreover have "publish_allowed p cfg w (trace s)
                  (publishCommand p cfg w (hotfixTagOverride s) (projectFolder pkg))"
              unfolding publishCommand_def
              using True mem entry q by (auto intro!: bexI [of _ "(name, pkg)"])
            ultimately show ?thesis by (simp add: trace_ok_snoc)
          next
            case False
            then have "queried p w pkg ?I (Ok False) s" using Q that by (simp add: decided_def)
            then show ?thesis using mem entry q by (intro publish_after_query) auto
          qed
        qed
        show "hoare ?Q (if d then ?publish else ?skip) ?I"
        proof (cases d)
          case True
          have "hoare ?Q (seq [npmPublish p cfg w name (projectFolder pkg), ?tag]) ?I"
            by (rule hoare_seq_Cons [OF pub [OF True]]) (intro seq_inv tag, simp)
          then have "hoare ?Q ?publish ?I"
            by (rule hoare_andThen [where Q = ?I]) (rule hoare_return, assumption)
          then show ?thesis by (simp only: True if_True)
        next
          case False
          have "hoare ?Q (console_log (''Skip '' @ name @ ''. Not updated.'')) ?I"
            by (rule hoare_weaken [OF log_stable [OF st]]) (auto simp: plain_def dest: QI)
          then have "hoare ?Q ?skip ?I"
            by (rule hoare_andThen [where Q = ?I]) (rule hoare_return, assumption)
          then show ?thesis by (simp only: False if_False)
        qed
      next
        fix e s
        assume "decided p w pkg ?I (Throw e) s"
        then show "?I s" by (auto simp: decided_def dest: queried_inv split: if_splits)
      qed
      then show ?thesis using q False by (simp add: publishAll_callback_def entry)
    qed
  qed
qed

lemma run_publish_allowed:
  "trace_ok (publish_allowed p cfg w) (trace (snd (run p cfg w initial)))"
proof -
  let ?I = "inv (publish_allowed p cfg w)"
  note st = stable_publish_allowed [of p cfg w]
  have tags: "hoare ?I (gitAddTag_change p cfg w change) ?I" for change
    by (rule gitAddTag_change_hoare) (simp_all add: trace_ok_snoc)
  have "hoare ?I (run p cfg w) ?I"
    by (intro run_stable [OF st] publishAll_stable [OF st] publishChanges_stable [OF st]
          publishAll_callback_allowed publishChange_allowed tags hoare_overrideTag_trace)
  moreover have "?I initial" by (simp add: initial_def trace_ok_Nil)
  ultimately show ?thesis by (rule hoareD)
qed

text \<open>
  C1.  In every run, whatever the mode and whatever the collaborators answer: a publish command
  handed to the command runner is run in the folder of a project of the configuration whose
  \<open>shouldPublish\<close> is true, and either \<open>--force\<close> is set or the event just before the command is
  the registry query for that project, and the list of published versions the registry
  returned to that query does not contain the project's current version.
\<close>

theorem publish_only_when_allowed:
  assumes "trace (snd (run p cfg w initial))
             = pre @ ExecCommand b tool (''publish'' # args) path env' # post"
  shows "\<exists>entry \<in> set (projectsByName cfg).
           path = projectFolder (snd entry) \<and> shouldPublish (snd entry)
           \<and> (force_value p
              \<or> (\<exists>pre'. pre = pre' @ [NpmPublishedVersions (packageName (snd entry))
                                        (projectFolder (snd entry)) (registryEnv p w)]
                    \<and> version (snd entry)
                        \<notin> set (npm_publishedVersions w pre' (packageName (snd entry))
                                 (projectFolder (snd entry)) (registryEnv p w))))"
  using trace_okD [OF run_publish_allowed assms]
  by (simp add: query_def published_def)

theorem publish_only_when_allowed_witness:
  "trace (snd (run flags repo quiet initial))
     = [ValidatePolicy, NewPrereleaseToken None None, NewChangeManager,
        ChangeManagerLoad ''/repo/changes'' None None False, NewPublishGit (Some ''master''),
        GitCheckout (Some ''publish-7'') (Some True), ChangeManagerApply True,
        ChangeManagerUpdateChangelog True, HasUncommittedChanges, GitAddChanges, GitCommit,
        GitPush (Some ''publish-7''), NpmPublishedVersions ''a'' ''/repo/a'' []]
       @ ExecCommand True ''/tools/npm'' (''publish'' # []) ''/repo/a'' []
       # [GitAddTag True ''a'' (Some ''1.1.0''), GitPush (Some ''publish-7''),
          GitCheckout (Some ''master'') None, GitPull, GitMerge ''publish-7'',
          GitPush (Some ''master''), GitDeleteBranch ''publish-7'' None,
          ConsoleLog (CHR 0x0A # ''Rush publish finished successfully.'')]
   \<and> (\<exists>entry \<in> set (projectsByName repo).
           ''/repo/a'' = projectFolder (snd entry) \<and> shouldPublish (snd entry)
           \<and> (force_value flags
              \<or> (\<exists>pre'. [ValidatePolicy, NewPrereleaseToken None None, NewChangeManager,
                          ChangeManagerLoad ''/repo/changes'' None None False,
                          NewPublishGit (Some ''master''),
                          GitCheckout (Some ''publish-7'') (Some True), ChangeManagerApply True,
                          ChangeManagerUpdateChangelog True, HasUncommittedChanges, GitAddChanges,
                          GitCommit, GitPush (Some ''publish-7''),
                          NpmPublishedVersions ''a'' ''/repo/a'' []]
                       = pre' @ [NpmPublishedVersions (packageName (snd entry))
                                   (projectFolder (snd entry)) (registryEnv flags quiet)]
                    \<and> version (snd entry)
                        \<notin> set (npm_publishedVersions quiet pre' (packageName (snd entry))
                                 (projectFolder (snd entry)) (registryEnv flags quiet)))))"
proof -
  have tr: "trace (snd (run flags repo quiet initial))
     = [ValidatePolicy, NewPrereleaseToken None None, NewChangeManager,
        ChangeManagerLoad ''/repo/changes'' None None False, NewPublishGit (Some ''master''),
        GitCheckout (Some ''publish-7'') (Some True), ChangeManagerApply True,
        ChangeManagerUpdateChangelog True, HasUncommittedChanges, GitAddChanges, GitCommit,
        GitPush (Some ''publish-7''), NpmPublishedVersions ''a'' ''/repo/a'' []]
       @ ExecCommand True ''/tools/npm'' (''publish'' # []) ''/repo/a'' []
       # [GitAddTag True ''a'' (Some ''1.1.0''), GitPush (Some ''publish-7''),
          GitCheckout (Some ''master'') None, GitPull, GitMerge ''publish-7'',
          GitPush (Some ''master''), GitDeleteBranch ''publish-7'' None,
          ConsoleLog (CHR 0x0A # ''Rush publish finished successfully.'')]"
    by (simp add: example_changes_run)
  from publish_only_when_allowed [OF tr] tr show ?thesis by (rule_tac conjI)
qed

subsection \<open>Tags\<close>

definition tag_flag :: "parameters \<Rightarrow> event list \<Rightarrow> event \<Rightarrow> bool" where
  "tag_flag p pre e =
     (\<forall>b n v. e = GitAddTag b n v \<longrightarrow> b = (publish_value p \<and> \<not> truthy (registryUrl_value p)))"

lemma run_tag_flag: "trace_ok (tag_flag p) (trace (snd (run p cfg w initial)))"
proof -
  let ?I = "inv (tag_flag p)"
  have st: "stable_on plain ?I"
    by (rule stable_on_inv) (auto simp: plain_def tag_flag_def)
  note sta = stable_on_plain_aux [OF st]
  have pub: "?I s \<Longrightarrow>
      ?I (s\<lparr>trace := trace s @ [publishCommand p cfg w (hotfixTagOverride s) path]\<rparr>)" for s path
    by (auto simp: trace_ok_snoc tag_flag_def publishCommand_def)
  have tag: "?I s \<Longrightarrow>
      ?I (s\<lparr>trace := trace s @ [GitAddTag (publish_value p \<and> \<not> truthy (registryUrl_value p)) n v]\<rparr>)"
    for s n v
    by (simp add: trace_ok_snoc tag_flag_def)
  have tags: "hoare ?I (gitAddTag_change p cfg w change) ?I" for change
    by (rule gitAddTag_change_hoare) (simp_all add: trace_ok_snoc tag_flag_def)
  have "hoare ?I (run p cfg w) ?I"
    by (intro run_stable [OF st] publishAll_stable [OF st] publishChanges_stable [OF st]
          publishAll_callback_stable [OF sta] publishChange_stable [OF sta] tags
          hoare_overrideTag_trace pub tag)
  moreover have "?I initial" by (simp add: initial_def trace_ok_Nil)
  ultimately show ?thesis by (rule hoareD)
qed

text \<open>
  C2.  In every run, in both modes: the git wrapper's \<open>addTag\<close> is told to tag exactly when
  \<open>--publish\<close> is set and no registry URL is given.  So a tag is created only under both
  conditions, and with a registry URL none is, whatever the publish flag.  (A registry URL is
  given when the parameter holds a non-empty string: the action tests its truthiness.)
\<close>

theorem tag_only_when_publish_and_no_registry:
  assumes "GitAddTag b n v \<in> set (trace (snd (run p cfg w initial)))"
  shows "b = (publish_value p \<and> \<not> truthy (registryUrl_value p))"
proof -
  from assms obtain pre post where "trace (snd (run p cfg w initial)) = pre @ GitAddTag b n v # post"
    by (auto dest: split_list)
  from trace_okD [OF run_tag_flag this] show ?thesis by (simp add: tag_flag_def)
qed

theorem tag_only_when_publish_and_no_registry_witness:
  "GitAddTag True ''a'' (Some ''1.1.0'') \<in> set (trace (snd (run flags repo quiet initial)))
   \<and> True = (publish_value flags \<and> \<not> truthy (registryUrl_value flags))"
proof -
  have m: "GitAddTag True ''a'' (Some ''1.1.0'') \<in> set (trace (snd (run flags repo quiet initial)))"
    by (simp add: example_changes_run)
  from tag_only_when_publish_and_no_registry [OF m] m show ?thesis by simp
qed

subsection \<open>Runs that stop early\<close>

text \<open>
  The spec's words for a qualifying descriptor, for the flag combinations \<open>_validate\<close>
  rejects, and for a release type other than internal, public or beta.
\<close>

definition qualifies :: "parameters \<Rightarrow> RushConfigurationProject \<Rightarrow> bool" where
  "qualifies p pkg =
     (shouldPublish pkg
      \<and> (\<not> truthy (versionPolicy_value p) \<or> versionPolicy_value p = versionPolicyName pkg))"

definition invalid_combination :: "parameters \<Rightarrow> bool" where
  "invalid_combination p =
     ((pack_value p \<and> \<not> includeAll_value p)
      \<or> (truthy (releaseFolder_value p) \<and> \<not> pack_value p)
      \<or> (truthy (releaseType_value p) \<and> \<not> pack_value p)
      \<or> (truthy (registryUrl_value p) \<and> pack_value p))"

definition invalid_releaseType :: "parameters \<Rightarrow> bool" where
  "invalid_releaseType p =
     (truthy (releaseType_value p)
      \<and> releaseType_value p \<notin> {Some ''internal'', Some ''public'', Some ''beta''})"


text \<open>
  The calls of "publish changes" mode up to the question whether the working tree has
  uncommitted changes, and the whole trace of a run that is abandoned because it has none.
\<close>

definition applied :: "parameters \<Rightarrow> RushConfiguration \<Rightarrow> world \<Rightarrow> event list" where
  "applied p cfg w =
     [ValidatePolicy,
      NewPrereleaseToken (prereleaseName_value p) (suffix_value p),
      NewChangeManager,
      ChangeManagerLoad (changesFolder cfg) (prereleaseName_value p) (suffix_value p)
        (addCommitDetails_value p),
      NewPublishGit (targetBranch_value p),
      GitCheckout (Some (''publish-'' @ string_of_nat (date_getTime w))) (Some True),
      ChangeManagerApply (apply_value p),
      ChangeManagerUpdateChangelog (apply_value p)]"




definition nofail :: "world \<Rightarrow> bool" where
  "nofail w = (\<forall>h e. \<not> fails w h e)"



definition ghost :: IChangeInfo where
  "ghost = \<lparr>change_packageName = ''ghost'', changeType = Some patch, newVersion = Some ''0.0.1''\<rparr>"

definition haunted :: world where
  "haunted = quiet\<lparr>changeManager_changes := [ghost]\<rparr>"

definition private_repo :: RushConfiguration where
  "private_repo = repo\<lparr>projectsByName := [(''b'', projectB)]\<rparr>"

lemma seq_step:
  "seq (a # as) s = (case fst (a s) of Ok u \<Rightarrow> seq as (snd (a s)) | Throw e \<Rightarrow> (Throw e, snd (a s)))"
  by (cases "a s") (auto split: result.splits)

lemma validate_invalid: "invalid_combination p \<Longrightarrow> \<exists>m. validate p = throw (Error m)"
  unfolding invalid_combination_def validate_def by auto

lemma validate_valid: "\<not> invalid_combination p \<Longrightarrow> validate p s = (Ok (), s)"
  unfolding invalid_combination_def validate_def return_def by auto

lemma npmPack_invalid:
  "invalid_releaseType p \<Longrightarrow>
   npmPack p cfg w n project s
     = (Throw (Error (''Invalid release type '' @ [CHR 0x22] @ the (releaseType_value p)
                        @ [CHR 0x22])), s)"
  unfolding invalid_releaseType_def npmPack_def throw_def by auto

lemma forEach_pack_invalid:
  assumes "pack_value p" and "invalid_releaseType p"
  shows "publishAll_forEach p cfg w xs updated s =
           (if \<exists>entry \<in> set xs. qualifies p (snd entry)
            then Throw (Error (''Invalid release type '' @ [CHR 0x22] @ the (releaseType_value p)
                                 @ [CHR 0x22]))
            else Ok updated, s)"
proof (induction xs)
  case Nil
  show ?case by (simp add: return_def)
next
  case (Cons x xs)
  obtain n pkg where x: "x = (n, pkg)" by (cases x)
  show ?case
  proof (cases "qualifies p pkg")
    case True
    then have "publishAll_callback p cfg w x updated s =
             (Throw (Error (''Invalid release type '' @ [CHR 0x22] @ the (releaseType_value p)
                                 @ [CHR 0x22])), s)"
      using assms by (simp add: publishAll_callback_def x qualifies_def andThen_def npmPack_invalid)
    then show ?thesis using True by (simp add: andThen_def x)
  next
    case False
    then have "publishAll_callback p cfg w x updated s = (Ok updated, s)"
      by (auto simp: publishAll_callback_def x qualifies_def return_def)
    then show ?thesis using False Cons by (simp add: andThen_def x)
  qed
qed

lemma call_nofail: "nofail w \<Longrightarrow> call w e s = (Ok (), s\<lparr>trace := trace s @ [e]\<rparr>)"
  by (simp add: nofail_def call_def ask_def)

lemma ask_nofail: "nofail w \<Longrightarrow> ask w e f s = (Ok (f (trace s)), s\<lparr>trace := trace s @ [e]\<rparr>)"
  by (simp add: nofail_def ask_def)

lemma overrideTag_Ok: "fst (overrideTag cs s) = Ok ()"
  by (induction cs) auto

lemma publishChange_Ok:
  assumes "nofail w"
  shows "fst (publishChange p cfg w (projectsByName cfg) change s) = Ok ()"
proof (cases "above_dependency change")
  case False
  then show ?thesis by (simp add: publishChange_def return_def)
next
  case True
  show ?thesis
  proof (cases "map_of (projectsByName cfg) (change_packageName change)")
    case None
    then show ?thesis using True by (simp add: publishChange_def console_log_def)
  next
    case (Some project)
    have q: "\<not> fails w (trace s) (query p w project)" using assms by (simp add: nofail_def)
    show ?thesis
      using True Some q assms
      by (cases "shouldPublish project")
         (simp_all add: publishChange_def andThen_def packageExists_eq npmPublish_skip
            npmPublish_command call_nofail console_log_def)
  qed
qed

lemma seq_map_Ok: "(\<And>x s. fst (f x s) = Ok ()) \<Longrightarrow> fst (seq (map f xs) s) = Ok ()"
  by (induction xs arbitrary: s) (simp_all add: seq_step del: seq.simps(2))

lemma gitAddTag_change_result:
  assumes "nofail w"
  shows "fst (gitAddTag_change p cfg w change s) =
           (if above_dependency change
               \<and> map_of (projectsByName cfg) (change_packageName change) = None
            then Throw (TypeError ''Cannot read property 'shouldPublish' of undefined'')
            else Ok ())"
  using assms
  by (auto simp: gitAddTag_change_def throw_def return_def call_nofail split: option.splits)

lemma gitAddTags_crash:
  assumes "nofail w" and "change \<in> set cs" and "above_dependency change"
    and "map_of (projectsByName cfg) (change_packageName change) = None"
  shows "fst (gitAddTags p cfg w cs s)
           = Throw (TypeError ''Cannot read property 'shouldPublish' of undefined'')"
  unfolding gitAddTags_def
  using assms(2)
proof (induction cs arbitrary: s)
  case Nil
  then show ?case by simp
next
  case (Cons c cs)
  show ?case
  proof (cases "above_dependency c \<and> map_of (projectsByName cfg) (change_packageName c) = None")
    case True
    then show ?thesis
      using gitAddTag_change_result [OF assms(1), of p cfg c s]
      by (simp add: seq_step del: seq.simps(2))
  next
    case False
    then have "change \<noteq> c" using assms(3,4) by auto
    then have "change \<in> set cs" using Cons.prems by simp
    then show ?thesis
      using False Cons.IH gitAddTag_change_result [OF assms(1), of p cfg c s]
      by (simp add: seq_step del: seq.simps(2))
  qed
qed

text \<open>The trace only grows.\<close>

lemma stable_mem: "stable_on C (\<lambda>s. x \<in> set (trace s))"
  by (simp add: stable_on_def)

lemma gitAddTags_mem:
  "x \<in> set (trace s) \<Longrightarrow> x \<in> set (trace (snd (gitAddTags p cfg w cs s)))"
proof -
  have "hoare (\<lambda>s. x \<in> set (trace s)) (gitAddTags p cfg w cs) (\<lambda>s. x \<in> set (trace s))"
    unfolding gitAddTags_def
    by (intro hoare_seq_map gitAddTag_change_hoare) simp_all
  then show "x \<in> set (trace s) \<Longrightarrow> x \<in> set (trace (snd (gitAddTags p cfg w cs s)))"
    by (rule hoareD)
qed

lemma publishChange_mem:
  "hoare (\<lambda>s. x \<in> set (trace s)) (publishChange p cfg w allPackages change)
     (\<lambda>s. x \<in> set (trace s))"
  by (rule publishChange_stable [OF stable_mem]) simp

lemma publishChange_logs_missing:
  assumes "above_dependency change"
    and "map_of allPackages (change_packageName change) = None"
  shows "ConsoleLog (''Skip '' @ change_packageName change @ ''. Failed to find its project.'')
           \<in> set (trace (snd (publishChange p cfg w allPackages change s)))"
  using assms by (simp add: publishChange_def console_log_def)

lemma publish_pass_logs_missing:
  assumes "change \<in> set cs" and "above_dependency change"
    and "map_of allPackages (change_packageName change) = None"
    and ok: "\<And>c s. fst (publishChange p cfg w allPackages c s) = Ok ()"
  shows "ConsoleLog (''Skip '' @ change_packageName change @ ''. Failed to find its project.'')
           \<in> set (trace (snd (seq (map (publishChange p cfg w allPackages) cs) s)))"
  using assms(1)
proof (induction cs arbitrary: s)
  case Nil
  then show ?case by simp
next
  case (Cons c cs)
  let ?m = "ConsoleLog (''Skip '' @ change_packageName change @ ''. Failed to find its project.'')"
  have step: "seq (map (publishChange p cfg w allPackages) (c # cs)) s
        = seq (map (publishChange p cfg w allPackages) cs)
            (snd (publishChange p cfg w allPackages c s))"
    using ok [of c s] by (simp add: seq_step del: seq.simps(2))
  show ?case
  proof (cases "change = c")
    case True
    have "?m \<in> set (trace (snd (publishChange p cfg w allPackages c s)))"
      using publishChange_logs_missing [OF assms(2,3)] True by simp
    moreover have "hoare (\<lambda>s. ?m \<in> set (trace s)) (seq (map (publishChange p cfg w allPackages) cs))
                     (\<lambda>s. ?m \<in> set (trace s))"
      by (intro hoare_seq_map publishChange_mem)
    ultimately show ?thesis unfolding step by (rule hoareD [rotated])
  next
    case False
    then have "change \<in> set cs" using Cons.prems by simp
    then show ?thesis unfolding step by (rule Cons.IH)
  qed
qed


text \<open>
  C10.  With \<open>--regenerate-changelogs\<close> the run validates the policy, prints a message,
  regenerates the changelogs and returns: the whole run is the equation below, whatever the
  other parameters are.  It never throws an \<open>Error\<close> of the action (a configuration error),
  and its trace holds no publish, pack or git call.
\<close>

theorem regenerate_changelogs_only:
  assumes "regenerateChangelogs_value p"
  shows "run p cfg w initial =
           (if fails w [] ValidatePolicy then
              (Throw (ExternalFailure ValidatePolicy),
               \<lparr>trace = [ValidatePolicy], hotfixTagOverride = None\<rparr>)
            else
              (if fails w [ValidatePolicy, ConsoleLog ''Regenerating changelogs'']
                    RegenerateChangelogs
               then Throw (ExternalFailure RegenerateChangelogs) else Ok (),
               \<lparr>trace = [ValidatePolicy, ConsoleLog ''Regenerating changelogs'',
                          RegenerateChangelogs],
                hotfixTagOverride = None\<rparr>))
         \<and> fst (run p cfg w initial) \<noteq> Throw (Error m)
         \<and> set (trace (snd (run p cfg w initial)))
             \<subseteq> {ValidatePolicy, ConsoleLog ''Regenerating changelogs'', RegenerateChangelogs}"
  using assms
  by (simp add: run_def call_def ask_def console_log_def initial_def)

theorem regenerate_changelogs_only_witness:
  "regenerateChangelogs_value (flags\<lparr>regenerateChangelogs_value := True, pack_value := True\<rparr>)
   \<and> pack_value (flags\<lparr>regenerateChangelogs_value := True, pack_value := True\<rparr>)
   \<and> \<not> includeAll_value (flags\<lparr>regenerateChangelogs_value := True, pack_value := True\<rparr>)
   \<and> run (flags\<lparr>regenerateChangelogs_value := True, pack_value := True\<rparr>) repo quiet initial
       = (Ok (), \<lparr>trace = [ValidatePolicy, ConsoleLog ''Regenerating changelogs'',
                            RegenerateChangelogs],
                  hotfixTagOverride = None\<rparr>)
   \<and> fst (run (flags\<lparr>regenerateChangelogs_value := True, pack_value := True\<rparr>) repo quiet initial)
       \<noteq> Throw (Error ''--pack can only be used with --include-all'')"
  using regenerate_changelogs_only
          [of "flags\<lparr>regenerateChangelogs_value := True, pack_value := True\<rparr>" repo quiet
              "''--pack can only be used with --include-all''"]
  by (simp add: flags_def quiet_def)



text \<open>
  C8, as the spec states it: every configuration error, an invalid release type included, is
  fatal and reported before any mutation.  Two runs that end normally show it false: one with
  \<open>--pack\<close>, no \<open>--include-all\<close> and \<open>--regenerate-changelogs\<close>, which regenerates the changelogs;
  one with \<open>--pack --include-all --release-type alpha\<close> on a repository where no project
  qualifies.
\<close>

theorem configuration_errors_counterexample:
  "pack_value (flags\<lparr>regenerateChangelogs_value := True, pack_value := True\<rparr>)
   \<and> \<not> includeAll_value (flags\<lparr>regenerateChangelogs_value := True, pack_value := True\<rparr>)
   \<and> run (flags\<lparr>regenerateChangelogs_value := True, pack_value := True\<rparr>) repo quiet initial
       = (Ok (), \<lparr>trace = [ValidatePolicy, ConsoleLog ''Regenerating changelogs'',
                            RegenerateChangelogs],
                  hotfixTagOverride = None\<rparr>)
   \<and> run (flags\<lparr>includeAll_value := True, pack_value := True,
                releaseType_value := Some ''alpha''\<rparr>) private_repo quiet initial
       = (Ok (), \<lparr>trace =
            [ValidatePolicy,
             ConsoleLog ''Rush publish starts with includeAll and version policy undefined'',
             NewPublishGit (Some ''master''),
             ConsoleLog (CHR 0x0A # ''Rush publish finished successfully.'')],
            hotfixTagOverride = None\<rparr>)"
  by (simp add: run_defs example_defs private_repo_def)

text \<open>
  C8, amended.  Without \<open>--regenerate-changelogs\<close>, and once the policy validation has passed:
  a flag combination that \<open>_validate\<close> rejects ends the run with its \<open>Error\<close> before any other
  call.  An invalid release type, in pack mode with valid flags, ends the run with its
  \<open>Error\<close> when the first qualifying project is to be packed: after the start message and the
  construction of the git wrapper, before any pack, file or git command; when no project
  qualifies, the run ends normally.
\<close>

theorem configuration_errors:
  assumes "\<not> regenerateChangelogs_value p" and "\<not> fails w [] ValidatePolicy"
  shows "(invalid_combination p \<longrightarrow>
            (\<exists>m. run p cfg w initial
                    = (Throw (Error m), \<lparr>trace = [ValidatePolicy], hotfixTagOverride = None\<rparr>)))
         \<and> (\<not> invalid_combination p \<and> pack_value p \<and> invalid_releaseType p
              \<and> \<not> fails w [ValidatePolicy,
                             ConsoleLog (''Rush publish starts with includeAll and version policy ''
                                           @ template (versionPolicy_value p))]
                     (NewPublishGit (targetBranch_value p)) \<longrightarrow>
            run p cfg w initial =
              (if \<exists>entry \<in> set (projectsByName cfg). qualifies p (snd entry) then
                 (Throw (Error (''Invalid release type '' @ [CHR 0x22] @ the (releaseType_value p)
                                  @ [CHR 0x22])),
                  \<lparr>trace = [ValidatePolicy,
                             ConsoleLog (''Rush publish starts with includeAll and version policy ''
                                           @ template (versionPolicy_value p)),
                             NewPublishGit (targetBranch_value p)],
                   hotfixTagOverride = None\<rparr>)
               else
                 (Ok (),
                  \<lparr>trace = [ValidatePolicy,
                             ConsoleLog (''Rush publish starts with includeAll and version policy ''
                                           @ template (versionPolicy_value p)),
                             NewPublishGit (targetBranch_value p),
                             ConsoleLog (os_EOL w
                                           @ colors_green w ''Rush publish finished successfully.'')],
                   hotfixTagOverride = None\<rparr>)))"
proof (intro conjI impI)
  assume "invalid_combination p"
  then obtain m where "validate p = throw (Error m)"
    using validate_invalid by blast
  then show "\<exists>m. run p cfg w initial
                = (Throw (Error m), \<lparr>trace = [ValidatePolicy], hotfixTagOverride = None\<rparr>)"
    using assms by (intro exI [of _ m]) (simp add: run_def call_def ask_def initial_def throw_def Let_def)
next
  assume a: "\<not> invalid_combination p \<and> pack_value p \<and> invalid_releaseType p
              \<and> \<not> fails w [ValidatePolicy,
                             ConsoleLog (''Rush publish starts with includeAll and version policy ''
                                           @ template (versionPolicy_value p))]
                     (NewPublishGit (targetBranch_value p))"
  then have inc: "includeAll_value p" by (auto simp: invalid_combination_def)
  show "run p cfg w initial =
              (if \<exists>entry \<in> set (projectsByName cfg). qualifies p (snd entry) then
                 (Throw (Error (''Invalid release type '' @ [CHR 0x22] @ the (releaseType_value p)
                                  @ [CHR 0x22])),
                  \<lparr>trace = [ValidatePolicy,
                             ConsoleLog (''Rush publish starts with includeAll and version policy ''
                                           @ template (versionPolicy_value p)),
                             NewPublishGit (targetBranch_value p)],
                   hotfixTagOverride = None\<rparr>)
               else
                 (Ok (),
                  \<lparr>trace = [ValidatePolicy,
                             ConsoleLog (''Rush publish starts with includeAll and version policy ''
                                           @ template (versionPolicy_value p)),
                             NewPublishGit (targetBranch_value p),
                             ConsoleLog (os_EOL w
                                           @ colors_green w ''Rush publish finished successfully.'')],
                   hotfixTagOverride = None\<rparr>))"
    using assms a inc
    by (simp add: run_def publishAll_def call_def ask_def console_log_def initial_def andThen_def
          return_def validate_valid forEach_pack_invalid Let_def)
qed

theorem configuration_errors_witness:
  "\<not> regenerateChangelogs_value (flags\<lparr>pack_value := True\<rparr>)
   \<and> \<not> fails quiet [] ValidatePolicy
   \<and> invalid_combination (flags\<lparr>pack_value := True\<rparr>)
   \<and> (\<exists>m. run (flags\<lparr>pack_value := True\<rparr>) repo quiet initial
             = (Throw (Error m), \<lparr>trace = [ValidatePolicy], hotfixTagOverride = None\<rparr>))
   \<and> \<not> invalid_combination (flags\<lparr>includeAll_value := True, pack_value := True,
                                     releaseType_value := Some ''alpha''\<rparr>)
   \<and> invalid_releaseType (flags\<lparr>includeAll_value := True, pack_value := True,
                                   releaseType_value := Some ''alpha''\<rparr>)
   \<and> qualifies (flags\<lparr>includeAll_value := True, pack_value := True,
                        releaseType_value := Some ''alpha''\<rparr>) projectA
   \<and> run (flags\<lparr>includeAll_value := True, pack_value := True,
                releaseType_value := Some ''alpha''\<rparr>) repo quiet initial
       = (Throw (Error (''Invalid release type '' @ [CHR 0x22] @ ''alpha'' @ [CHR 0x22])),
          \<lparr>trace =
             [ValidatePolicy,
              ConsoleLog ''Rush publish starts with includeAll and version policy undefined'',
              NewPublishGit (Some ''master'')],
           hotfixTagOverride = None\<rparr>)"
  using configuration_errors [of "flags\<lparr>pack_value := True\<rparr>" quiet repo]
        configuration_errors [of "flags\<lparr>includeAll_value := True, pack_value := True,
                                        releaseType_value := Some ''alpha''\<rparr>" quiet repo]
  by (simp add: flags_def quiet_def repo_def projectA_def projectB_def invalid_combination_def
        invalid_releaseType_def qualifies_def)

text \<open>
  C9.  In "publish changes" mode, when no call fails and the run reaches the two passes: if
  the change list holds a record above \<open>dependency\<close> whose package is not in the project map,
  the run ends with the TypeError of reading \<open>shouldPublish\<close> of undefined, thrown by the tag
  pass; the publish pass before it had skipped the same record with a diagnostic.
\<close>

theorem tag_pass_crashes_on_missing_project:
  assumes "\<forall>h e. \<not> fails w h e"
    and "\<not> regenerateChangelogs_value p" and "\<not> includeAll_value p"
    and "\<not> invalid_combination p"
    and "changeManager_hasChanges w"
    and "versionControl_hasUncommittedChanges w (applied p cfg w)"
    and "change \<in> set (changeManager_changes w)" and "above_dependency change"
    and "map_of (projectsByName cfg) (change_packageName change) = None"
  shows "fst (run p cfg w initial)
           = Throw (TypeError ''Cannot read property 'shouldPublish' of undefined'')
         \<and> ConsoleLog (''Skip '' @ change_packageName change @ ''. Failed to find its project.'')
             \<in> set (trace (snd (run p cfg w initial)))"
proof -
  let ?cs = "changeManager_changes w"
  let ?m = "ConsoleLog (''Skip '' @ change_packageName change @ ''. Failed to find its project.'')"
  have nf: "nofail w" using assms(1) by (simp add: nofail_def)
  note pass = seq_map_Ok [where f = "publishChange p cfg w (projectsByName cfg)",
                          OF publishChange_Ok [OF nf]]
  note crash = gitAddTags_crash [OF nf assms(7,8,9)]
  have logged: "?m \<in> set (trace (snd (gitAddTags p cfg w ?cs
                   (snd (seq (map (publishChange p cfg w (projectsByName cfg)) ?cs) s)))))" for s
    by (intro gitAddTags_mem publish_pass_logs_missing assms(7,8,9) publishChange_Ok [OF nf])
  have h: "versionControl_hasUncommittedChanges w
             [ValidatePolicy,
              NewPrereleaseToken (prereleaseName_value p) (suffix_value p),
              NewChangeManager,
              ChangeManagerLoad (changesFolder cfg) (prereleaseName_value p) (suffix_value p)
                (addCommitDetails_value p),
              NewPublishGit (targetBranch_value p),
              GitCheckout (Some (''publish-'' @ string_of_nat (date_getTime w))) (Some True),
              ChangeManagerApply (apply_value p),
              ChangeManagerUpdateChangelog (apply_value p)]"
    using assms(6) by (simp add: applied_def)
  show ?thesis
    using assms(2,3,5) h
    by (simp add: run_def publishChanges_def Let_def seq_step call_nofail [OF nf]
          ask_nofail [OF nf] andThen_def validate_valid [OF assms(4)] initial_def
          overrideTag_Ok pass crash logged [simplified]
        del: seq.simps(2))
qed

theorem tag_pass_crashes_on_missing_project_witness:
  "(\<forall>h e. \<not> fails haunted h e)
   \<and> \<not> regenerateChangelogs_value flags \<and> \<not> includeAll_value flags
   \<and> \<not> invalid_combination flags
   \<and> changeManager_hasChanges haunted
   \<and> versionControl_hasUncommittedChanges haunted (applied flags repo haunted)
   \<and> ghost \<in> set (changeManager_changes haunted) \<and> above_dependency ghost
   \<and> map_of (projectsByName repo) (change_packageName ghost) = None
   \<and> fst (run flags repo haunted initial)
       = Throw (TypeError ''Cannot read property 'shouldPublish' of undefined'')
   \<and> ConsoleLog ''Skip ghost. Failed to find its project.''
       \<in> set (trace (snd (run flags repo haunted initial)))"
  using tag_pass_crashes_on_missing_project [of haunted flags repo ghost]
  by (simp add: example_defs haunted_def ghost_def invalid_combination_def above_dependency_def)

subsection \<open>The calls of a run, up to the first that fails\<close>

text \<open>
  A list of events as a plan: \<open>through w h evs\<close> says that, after the history \<open>h\<close>, no call of
  \<open>evs\<close> fails, and \<open>until_failure w h evs\<close> is the part of \<open>evs\<close> that happens, up to and including
  the first call that fails.  Writing to the console is not a call into a collaborator and
  never fails.  \<open>performs w a s evs x\<close>: from the state \<open>s\<close> the action \<open>a\<close> makes the calls of
  \<open>evs\<close> in order, up to the first that fails, and changes nothing else; it returns \<open>x\<close> when none
  fails and throws the failure otherwise.
\<close>

fun is_log :: "event \<Rightarrow> bool" where
  "is_log (ConsoleLog m) = True"
| "is_log e = False"

fun through :: "world \<Rightarrow> event list \<Rightarrow> event list \<Rightarrow> bool" where
  "through w h [] = True"
| "through w h (e # es) = ((is_log e \<or> \<not> fails w h e) \<and> through w (h @ [e]) es)"

fun until_failure :: "world \<Rightarrow> event list \<Rightarrow> event list \<Rightarrow> event list" where
  "until_failure w h [] = []"
| "until_failure w h (e # es) =
     (if is_log e \<or> \<not> fails w h e then e # until_failure w (h @ [e]) es else [e])"

definition performs :: "world \<Rightarrow> 'a action \<Rightarrow> state \<Rightarrow> event list \<Rightarrow> 'a \<Rightarrow> bool" where
  "performs w a s evs x =
     (snd (a s) = s\<lparr>trace := trace s @ until_failure w (trace s) evs\<rparr>
      \<and> (if through w (trace s) evs then fst (a s) = Ok x
         else \<exists>e. fst (a s) = Throw (ExternalFailure e)))"

lemma through_append:
  "through w h (xs @ ys) = (through w h xs \<and> through w (h @ xs) ys)"
  by (induction xs arbitrary: h) auto

lemma until_failure_append:
  "until_failure w h (xs @ ys) =
     (if through w h xs then xs @ until_failure w (h @ xs) ys else until_failure w h xs)"
  by (induction xs arbitrary: h) auto

lemma until_failure_through: "through w h xs \<Longrightarrow> until_failure w h xs = xs"
  by (induction xs arbitrary: h) auto

lemma performs_return: "performs w (return x) s [] x"
  by (simp add: performs_def return_def)

lemma performs_ask: "\<not> is_log e \<Longrightarrow> performs w (ask w e f) s [e] (f (trace s))"
  by (simp add: performs_def ask_def)

lemma performs_call: "\<not> is_log e \<Longrightarrow> performs w (call w e) s [e] ()"
  unfolding call_def using performs_ask [of e w "\<lambda>h. ()" s] by simp

lemma performs_console_log: "performs w (console_log m) s [ConsoleLog m] ()"
  by (simp add: performs_def console_log_def)

lemma performs_andThen:
  assumes m: "performs w m s evs x"
    and f: "performs w (f x) (s\<lparr>trace := trace s @ evs\<rparr>) evs' y"
  shows "performs w (andThen m f) s (evs @ evs') y"
proof (cases "through w (trace s) evs")
  case True
  then have ms: "m s = (Ok x, s\<lparr>trace := trace s @ evs\<rparr>)"
    using m by (cases "m s") (simp add: performs_def until_failure_through)
  then have "andThen m f s = f x (s\<lparr>trace := trace s @ evs\<rparr>)"
    by (simp add: andThen_def)
  then show ?thesis
    using f True by (simp add: performs_def through_append until_failure_append)
next
  case False
  then obtain e where "m s = (Throw (ExternalFailure e),
                               s\<lparr>trace := trace s @ until_failure w (trace s) evs\<rparr>)"
    using m by (cases "m s") (auto simp: performs_def)
  then show ?thesis
    using False by (simp add: performs_def andThen_def through_append until_failure_append)
qed

lemma performs_seq_Nil: "performs w (seq []) s [] ()"
  by (simp add: performs_def)

lemma performs_seq_Cons:
  assumes a: "performs w a s evs ()"
    and rest: "performs w (seq as) (s\<lparr>trace := trace s @ evs\<rparr>) evs' ()"
  shows "performs w (seq (a # as)) s (evs @ evs') ()"
proof -
  have "seq (a # as) s = andThen a (\<lambda>u. seq as) s"
    by (cases "a s") (auto simp: andThen_def split: result.splits)
  then show ?thesis
    using performs_andThen [OF a, of "\<lambda>u. seq as", OF rest] by (simp add: performs_def)
qed

lemma andThen_return: "andThen (return x) f = f x"
  by (rule ext) (simp add: andThen_def return_def)

lemma performs_npmPublish:
  assumes "map_of (projectsByName cfg) n = Some pkg" and "shouldPublish pkg"
  shows "performs w (npmPublish p cfg w n path) s
           [publishCommand p cfg w (hotfixTagOverride s) path] ()"
  using performs_call [of "publishCommand p cfg w (hotfixTagOverride s) path" w s]
  by (simp add: performs_def npmPublish_command [OF assms] publishCommand_def)

lemma performs_packageExists:
  "performs w (packageExists p w pkg) s [query p w pkg]
     (version pkg \<in> set (published p w (trace s) pkg))"
  by (simp add: performs_def packageExists_eq query_def)


subsection \<open>Publishing before tagging\<close>

text \<open>
  \<open>before_tags\<close>: no \<open>addTag\<close> call precedes a registry query or a publish command.  \<open>routine\<close>
  events are the calls that \<open>run\<close> and \<open>_publishChanges\<close> make outside the two passes.
  \<open>fail_last a\<close>: when \<open>a\<close> ends with the failure of a call, that call is the last event.
\<close>

fun is_query :: "event \<Rightarrow> bool" where
  "is_query (NpmPublishedVersions n f e) = True"
| "is_query e = False"

definition before_tags :: "event list \<Rightarrow> event \<Rightarrow> bool" where
  "before_tags pre e = (is_npm_publish e \<or> is_query e \<longrightarrow> \<not> list_ex is_tag pre)"

fun routine :: "event \<Rightarrow> bool" where
  "routine (NpmPublishedVersions n f e) = False"
| "routine (ExecCommand b tool args path env) = False"
| "routine (GitAddTag b n v) = False"
| "routine (JsonFileLoad f) = False"
| "routine (FileSystemReadFolder f) = False"
| "routine (FileSystemCopyFile a b) = False"
| "routine (FileSystemMove a b c) = False"
| "routine e = True"

definition fail_last :: "'a action \<Rightarrow> bool" where
  "fail_last a =
     (\<forall>s e. fst (a s) = Throw (ExternalFailure e) \<longrightarrow>
        trace (snd (a s)) \<noteq> [] \<and> last (trace (snd (a s))) = e)"


text \<open>Example input: a world where the publish command fails.\<close>

definition jammed :: world where
  "jammed = quiet\<lparr>fails := (\<lambda>h e. is_npm_publish e)\<rparr>"

subsection \<open>The two phases of "publish changes"\<close>

lemma hoare_seq_append:
  assumes "hoare P (seq as) Q" and "hoare Q (seq bs) R" and "\<And>s. Q s \<Longrightarrow> R s"
  shows "hoare P (seq (as @ bs)) R"
  using assms(1)
proof (induction as arbitrary: P)
  case Nil
  then have "P s \<Longrightarrow> Q s" for s by (simp add: hoare_def)
  then show ?case using assms(2) by (simp add: hoare_def)
next
  case (Cons a as)
  show ?case
    unfolding hoare_def append_Cons
  proof (intro allI impI)
    fix s :: state assume P: "P s"
    show "R (snd (seq (a # as @ bs) s))"
    proof (cases "fst (a s)")
      case (Throw e)
      then have "seq (a # as) s = (Throw e, snd (a s))" "seq (a # as @ bs) s = (Throw e, snd (a s))"
        by (simp_all add: seq_step del: seq.simps(2))
      then show ?thesis using hoareD [OF Cons.prems P] assms(3) by simp
    next
      case (Ok u)
      then have eq: "seq (a # as) s = seq as (snd (a s))"
        "seq (a # as @ bs) s = seq (as @ bs) (snd (a s))"
        by (simp_all add: seq_step del: seq.simps(2))
      have "hoare (\<lambda>t. t = snd (a s)) (seq as) Q"
        using hoareD [OF Cons.prems P] eq(1) by (simp add: hoare_def)
      from Cons.IH [OF this] show ?thesis unfolding eq(2) by (simp add: hoare_def)
    qed
  qed
qed

lemma hoare_seq_single: "hoare P a Q \<Longrightarrow> hoare P (seq [a]) Q"
  by (rule hoare_seq_Cons [OF _ hoare_seq_Nil])

lemma hoare_seq_then:
  "hoare I (seq as) I \<Longrightarrow> hoare I (seq bs) R \<Longrightarrow> (\<And>s. I s \<Longrightarrow> R s) \<Longrightarrow> hoare I (seq (as @ bs)) R"
  by (rule hoare_seq_append)

lemma hoare_seq_finally:
  "hoare P (seq as) R \<Longrightarrow> hoare R (seq bs) R \<Longrightarrow> hoare P (seq (as @ bs)) R"
  by (rule hoare_seq_append)

lemma hoare_post: "hoare I a I \<Longrightarrow> (\<And>s. I s \<Longrightarrow> R s) \<Longrightarrow> hoare I a R"
  by (simp add: hoare_def)

lemma publishChanges_phases:
  assumes st0: "stable_on routine I" and st: "stable_on routine R" and weak: "\<And>s. I s \<Longrightarrow> R s"
    and core: "hoare I (seq [overrideTag (changeManager_changes w),
                            seq (map (publishChange p cfg w allPackages) (changeManager_changes w)),
                            gitAddTags p cfg w (changeManager_changes w)]) R"
  shows "hoare I (publishChanges p cfg w allPackages) R"
proof -
  let ?cs = "changeManager_changes w"
  let ?temp = "''publish-'' @ string_of_nat (date_getTime w)"
  let ?first = "[call w GitAddChanges, call w GitCommit, call w (GitPush (Some ?temp))]"
  let ?core = "[overrideTag ?cs, seq (map (publishChange p cfg w allPackages) ?cs),
                gitAddTags p cfg w ?cs]"
  let ?last = "[call w (GitPush (Some ?temp)), call w (GitCheckout (targetBranch_value p) None),
                call w GitPull, call w (GitMerge ?temp), call w (GitPush (targetBranch_value p)),
                call w (GitDeleteBranch ?temp None)]"
  let ?unchanged = "seq [call w (GitCheckout (targetBranch_value p) None),
                         call w (GitDeleteBranch ?temp (Some False))]"
  let ?decide = "andThen (ask w HasUncommittedChanges (versionControl_hasUncommittedChanges w))
                   (\<lambda>uncommitted. if uncommitted then seq (?first @ ?core @ ?last) else ?unchanged)"
  let ?start = "[call w (NewPublishGit (targetBranch_value p)),
                 call w (GitCheckout (Some ?temp) (Some True)),
                 call w (ChangeManagerApply (apply_value p)),
                 call w (ChangeManagerUpdateChangelog (apply_value p))]"
  let ?load = "[call w NewChangeManager,
                call w (ChangeManagerLoad (changesFolder cfg) (prereleaseName_value p)
                          (suffix_value p) (addCommitDetails_value p))]"
  let ?body = "if changeManager_hasChanges w then seq (?start @ [?decide]) else return ()"
  have first: "hoare I (seq ?first) I"
    by (intro seq_inv call_stable [OF st0]) simp_all
  have last: "hoare R (seq ?last) R"
    by (intro seq_inv call_stable [OF st]) simp_all
  have "hoare I (seq (?core @ ?last)) R"
    using core last by (rule hoare_seq_finally)
  with first have changed: "hoare I (seq (?first @ ?core @ ?last)) R"
    using weak by (rule hoare_seq_then)
  have "hoare I ?unchanged I"
    by (intro seq_inv call_stable [OF st0]) simp_all
  then have unchanged: "hoare I ?unchanged R" using weak by (rule hoare_post)
  have question: "hoare I (ask w HasUncommittedChanges (versionControl_hasUncommittedChanges w)) I"
    by (rule ask_stable [OF st0]) simp
  have decide: "hoare I ?decide R"
    using question
  proof (rule hoare_andThen)
    show "hoare I (if u then seq (?first @ ?core @ ?last) else ?unchanged) R" for u
      using changed unchanged by (rule hoare_if)
  qed (rule weak)
  have start: "hoare I (seq ?start) I"
    by (intro seq_inv call_stable [OF st0]) simp_all
  have inner: "hoare I (seq (?start @ [?decide])) R"
    using start hoare_seq_single [OF decide] weak by (rule hoare_seq_then)
  have "hoare I (return ()) R"
    using hoare_return weak by (rule hoare_post)
  with inner have body: "hoare I ?body R" by (rule hoare_if)
  have load: "hoare I (seq ?load) I"
    by (intro seq_inv call_stable [OF st0]) simp_all
  have "hoare I (seq (?load @ [?body])) R"
    using load hoare_seq_single [OF body] weak by (rule hoare_seq_then)
  then show ?thesis unfolding publishChanges_def Let_def append_Cons append_Nil .
qed

lemma run_phases:
  assumes "\<not> includeAll_value p"
    and st0: "stable_on routine I" and st: "stable_on routine R" and weak: "\<And>s. I s \<Longrightarrow> R s"
    and changes: "hoare I (publishChanges p cfg w (projectsByName cfg)) R"
  shows "hoare I (run p cfg w) R"
proof -
  let ?token = "call w (NewPrereleaseToken (prereleaseName_value p) (suffix_value p))"
  let ?done = "console_log (os_EOL w @ colors_green w ''Rush publish finished successfully.'')"
  let ?mode = "seq ([?token] @ [publishChanges p cfg w (projectsByName cfg)])"
  let ?regen = "seq [console_log ''Regenerating changelogs'', call w RegenerateChangelogs]"
  let ?main = "seq ([validate p] @ [?mode] @ [?done])"
  have token: "hoare I (seq [?token]) I"
    by (intro seq_inv call_stable [OF st0]) simp
  have mode: "hoare I ?mode R"
    using token hoare_seq_single [OF changes] weak by (rule hoare_seq_then)
  have "hoare R (seq [?done]) R"
    by (intro seq_inv log_stable [OF st]) simp
  with hoare_seq_single [OF mode] have tail: "hoare I (seq ([?mode] @ [?done])) R"
    by (rule hoare_seq_finally)
  have "hoare I (seq [validate p]) I"
    by (intro seq_inv hoare_validate)
  then have main: "hoare I ?main R"
    using tail weak by (rule hoare_seq_then)
  have "hoare I ?regen I"
    by (intro seq_inv call_stable [OF st0] log_stable [OF st0]) simp_all
  then have regen: "hoare I ?regen R" using weak by (rule hoare_post)
  have rest: "hoare I (if regenerateChangelogs_value p then ?regen else ?main) R"
    using regen main by (rule hoare_if)
  have "hoare I (seq [call w ValidatePolicy]) I"
    by (intro seq_inv call_stable [OF st0]) simp
  then have "hoare I (seq ([call w ValidatePolicy]
                @ [if regenerateChangelogs_value p then ?regen else ?main])) R"
    using hoare_seq_single [OF rest] weak by (rule hoare_seq_then)
  then have "hoare I
      (seq [call w ValidatePolicy,
            if regenerateChangelogs_value p then ?regen
            else seq [validate p, seq [?token, publishChanges p cfg w (projectsByName cfg)],
                      ?done]]) R"
    unfolding append_Cons append_Nil .
  then show ?thesis using assms(1) by (simp add: run_def Let_def cong: if_cong)
qed


subsection \<open>No tag before the end of the publish pass\<close>

lemma no_tags_before_tags:
  assumes "trace_ok (\<lambda>pre e. \<not> is_tag e) tr"
  shows "trace_ok before_tags tr"
  unfolding trace_ok_def before_tags_def
proof (intro allI impI)
  fix pre e post
  assume "tr = pre @ e # post"
  then have "set pre \<subseteq> set tr" by auto
  then show "\<not> list_ex is_tag pre"
    using trace_ok_memD [OF assms] by (auto simp: list_ex_iff)
qed

lemma run_before_tags:
  assumes "\<not> includeAll_value p"
  shows "trace_ok before_tags (trace (snd (run p cfg w initial)))"
proof -
  let ?I = "inv (\<lambda>pre e. \<not> is_tag e)"
  let ?R = "inv before_tags"
  let ?cs = "changeManager_changes w"
  have weak: "?I s \<Longrightarrow> ?R s" for s by (rule no_tags_before_tags)
  have st0: "stable_on routine ?I"
    by (rule stable_on_inv) (auto elim: routine.elims)
  have st: "stable_on routine ?R"
    by (rule stable_on_inv) (auto simp: before_tags_def elim: routine.elims)
  have sta: "stable_on aux ?I"
    by (rule stable_on_inv) (auto elim: aux.elims)
  have pass: "hoare ?I (seq (map (publishChange p cfg w (projectsByName cfg)) ?cs)) ?I"
    by (intro hoare_seq_map publishChange_stable [OF sta]) (simp add: trace_ok_snoc)
  have "hoare ?R (gitAddTags p cfg w ?cs) ?R"
    unfolding gitAddTags_def
    by (intro hoare_seq_map gitAddTag_change_hoare) (simp_all add: trace_ok_snoc before_tags_def)
  then have tags: "hoare ?I (gitAddTags p cfg w ?cs) ?R"
    by (rule hoare_weaken) (simp_all add: weak)
  have "hoare ?I (seq [seq (map (publishChange p cfg w (projectsByName cfg)) ?cs),
                       gitAddTags p cfg w ?cs]) ?R"
    using pass hoare_seq_single [OF tags] weak by (rule hoare_seq_Cons)
  with hoare_overrideTag_trace
  have core: "hoare ?I (seq [overrideTag ?cs,
                            seq (map (publishChange p cfg w (projectsByName cfg)) ?cs),
                            gitAddTags p cfg w ?cs]) ?R"
    using weak by (rule hoare_seq_Cons)
  have "hoare ?I (run p cfg w) ?R"
    by (intro run_phases [OF assms st0 st] publishChanges_phases [OF st0 st] core weak)
  moreover have "?I initial" by (simp add: initial_def trace_ok_Nil)
  ultimately show ?thesis by (rule hoareD)
qed


subsection \<open>A failed call is the last event\<close>

lemma fail_last_return: "fail_last (return x)"
  by (simp add: fail_last_def return_def)

lemma fail_last_Error: "fail_last (throw (Error m))"
  by (simp add: fail_last_def throw_def)

lemma fail_last_TypeError: "fail_last (throw (TypeError m))"
  by (simp add: fail_last_def throw_def)

lemma fail_last_ask: "fail_last (ask w e f)"
  by (simp add: fail_last_def ask_def)

lemma fail_last_call: "fail_last (call w e)"
  by (simp add: call_def fail_last_ask)

lemma fail_last_console_log: "fail_last (console_log m)"
  by (simp add: fail_last_def console_log_def)

lemma fail_last_andThen:
  assumes "fail_last m" and "\<And>x. fail_last (f x)"
  shows "fail_last (andThen m f)"
  unfolding fail_last_def
proof (intro allI impI)
  fix s :: state and e
  assume t: "fst (andThen m f s) = Throw (ExternalFailure e)"
  show "trace (snd (andThen m f s)) \<noteq> [] \<and> last (trace (snd (andThen m f s))) = e"
  proof (cases "m s")
    case (Pair r s')
    show ?thesis
    proof (cases r)
      case (Ok x)
      then show ?thesis using Pair t assms(2) [of x] by (simp add: andThen_def fail_last_def)
    next
      case (Throw e')
      then have eq: "fst (andThen m f s) = Throw e'" "fst (m s) = Throw e'"
        "snd (andThen m f s) = snd (m s)"
        using Pair by (simp_all add: andThen_def)
      then have "fst (m s) = Throw (ExternalFailure e)" using t by simp
      from assms(1) [unfolded fail_last_def, rule_format, OF this] show ?thesis
        by (simp add: eq(3))
    qed
  qed
qed

lemma fail_last_seq_Nil: "fail_last (seq [])"
  by (simp add: fail_last_def)

lemma fail_last_seq_Cons:
  assumes "fail_last a" and "fail_last (seq as)"
  shows "fail_last (seq (a # as))"
  unfolding fail_last_def
proof (intro allI impI)
  fix s :: state and e
  assume t: "fst (seq (a # as) s) = Throw (ExternalFailure e)"
  show "trace (snd (seq (a # as) s)) \<noteq> [] \<and> last (trace (snd (seq (a # as) s))) = e"
  proof (cases "fst (a s)")
    case (Ok u)
    then show ?thesis using t assms(2)
      by (simp add: seq_step fail_last_def del: seq.simps(2))
  next
    case (Throw e')
    then show ?thesis using t assms(1)
      by (simp add: seq_step fail_last_def del: seq.simps(2))
  qed
qed

lemma fail_last_seq_map: "(\<And>x. fail_last (f x)) \<Longrightarrow> fail_last (seq (map f xs))"
  by (induction xs) (simp_all add: fail_last_seq_Nil fail_last_seq_Cons)

lemma fail_last_if: "(c \<Longrightarrow> fail_last a) \<Longrightarrow> (\<not> c \<Longrightarrow> fail_last b) \<Longrightarrow> fail_last (if c then a else b)"
  by simp

lemma fail_last_state_if:
  "fail_last a \<Longrightarrow> fail_last b \<Longrightarrow> fail_last (\<lambda>s. if c s then a s else b s)"
  by (simp add: fail_last_def)

lemmas fail_last_intros = fail_last_return fail_last_Error fail_last_TypeError fail_last_ask
  fail_last_call fail_last_console_log fail_last_andThen fail_last_seq_Nil fail_last_seq_Cons
  fail_last_seq_map fail_last_if

lemma fail_last_validate: "fail_last (validate p)"
  unfolding validate_def by (intro fail_last_intros)

lemma fail_last_overrideTag: "fail_last (overrideTag cs)"
  by (simp add: fail_last_def overrideTag_Ok)

lemma fail_last_packageExists: "fail_last (packageExists p w pkg)"
  unfolding packageExists_def Let_def by (intro fail_last_intros)

lemma fail_last_npmPublish: "fail_last (npmPublish p cfg w n path)"
  unfolding fail_last_def
proof (intro allI impI)
  fix s :: state and e
  assume t: "fst (npmPublish p cfg w n path s) = Throw (ExternalFailure e)"
  show "trace (snd (npmPublish p cfg w n path s)) \<noteq> []
        \<and> last (trace (snd (npmPublish p cfg w n path s))) = e"
  proof (cases "map_of (projectsByName cfg) n")
    case None
    then show ?thesis using t by (simp add: npmPublish_None)
  next
    case (Some project)
    then show ?thesis using t fail_last_call [of w]
      by (cases "shouldPublish project")
         (simp_all add: npmPublish_skip npmPublish_command fail_last_def)
  qed
qed

lemma fail_last_copyApiFile: "fail_last (copyApiFile w a b f)"
  unfolding copyApiFile_def by (intro fail_last_intros)

lemma fail_last_updateAPIFile: "fail_last (updateAPIFile p w n project)"
  unfolding updateAPIFile_def Let_def
  by (intro fail_last_intros fail_last_state_if fail_last_copyApiFile)

lemma fail_last_npmPack: "fail_last (npmPack p cfg w n project)"
  unfolding npmPack_def Let_def
  by (intro fail_last_intros fail_last_updateAPIFile)

lemma fail_last_callback: "fail_last (publishAll_callback p cfg w entry updated)"
proof -
  obtain name pkg where entry: "entry = (name, pkg)" by (cases entry)
  show ?thesis
    unfolding publishAll_callback_def entry prod.case
    by (intro fail_last_intros fail_last_npmPack fail_last_npmPublish fail_last_packageExists)
qed

lemma fail_last_forEach: "fail_last (publishAll_forEach p cfg w xs updated)"
  by (induction xs arbitrary: updated)
     (simp_all add: fail_last_return fail_last_andThen fail_last_callback)

lemma fail_last_publishAll: "fail_last (publishAll p cfg w allPackages)"
  unfolding publishAll_def by (intro fail_last_intros fail_last_forEach)

lemma fail_last_gitAddTag_change: "fail_last (gitAddTag_change p cfg w change)"
  unfolding gitAddTag_change_def
  by (cases "map_of (projectsByName cfg) (change_packageName change)")
     (simp_all add: fail_last_intros)

lemma fail_last_publishChange: "fail_last (publishChange p cfg w allPackages change)"
  unfolding publishChange_def
  by (cases "map_of allPackages (change_packageName change)")
     (simp_all add: fail_last_intros fail_last_packageExists fail_last_npmPublish)

lemma fail_last_publishChanges: "fail_last (publishChanges p cfg w allPackages)"
  unfolding publishChanges_def gitAddTags_def Let_def
  by (intro fail_last_intros fail_last_overrideTag fail_last_publishChange
        fail_last_gitAddTag_change)

lemma fail_last_run: "fail_last (run p cfg w)"
  unfolding run_def Let_def
  by (intro fail_last_intros fail_last_validate fail_last_publishAll fail_last_publishChanges)


text \<open>
  C3.  In "publish changes" mode the publish pass and the tag pass run over the same list, one
  after the other: in the trace of a run no registry query and no publish command comes after
  a call of \<open>addTag\<close>.  A failed call is the last event of a trace, so a run that ends with the
  exception of a registry query or of a publish command has called \<open>addTag\<close> for no package.
\<close>

theorem publish_pass_before_tag_pass:
  assumes "\<not> includeAll_value p"
  shows "(trace (snd (run p cfg w initial)) = pre @ e # post \<and> (is_npm_publish e \<or> is_query e)
            \<longrightarrow> \<not> list_ex is_tag pre)
         \<and> (fst (run p cfg w initial) = Throw (ExternalFailure e)
              \<and> (is_npm_publish e \<or> is_query e)
            \<longrightarrow> \<not> list_ex is_tag (trace (snd (run p cfg w initial))))"
proof (intro conjI impI)
  assume a: "trace (snd (run p cfg w initial)) = pre @ e # post \<and> (is_npm_publish e \<or> is_query e)"
  then have "trace (snd (run p cfg w initial)) = pre @ e # post" by simp
  from trace_okD [OF run_before_tags [OF assms] this] a show "\<not> list_ex is_tag pre"
    by (simp add: before_tags_def)
next
  let ?tr = "trace (snd (run p cfg w initial))"
  assume a: "fst (run p cfg w initial) = Throw (ExternalFailure e)
             \<and> (is_npm_publish e \<or> is_query e)"
  then have "?tr \<noteq> [] \<and> last ?tr = e" using fail_last_run [of p cfg w] by (simp add: fail_last_def)
  then have tr: "?tr = butlast ?tr @ e # []" by (metis append_butlast_last_id)
  from trace_okD [OF run_before_tags [OF assms] tr] a have "\<not> list_ex is_tag (butlast ?tr)"
    by (simp add: before_tags_def)
  moreover have "\<not> is_tag e" using a by (cases e) auto
  ultimately have "\<not> list_ex is_tag (butlast ?tr @ [e])" by simp
  then show "\<not> list_ex is_tag ?tr" using tr by simp
qed

theorem publish_pass_before_tag_pass_witness:
  "\<not> includeAll_value flags
   \<and> trace (snd (run flags repo quiet initial))
       = [ValidatePolicy, NewPrereleaseToken None None, NewChangeManager,
          ChangeManagerLoad ''/repo/changes'' None None False, NewPublishGit (Some ''master''),
          GitCheckout (Some ''publish-7'') (Some True), ChangeManagerApply True,
          ChangeManagerUpdateChangelog True, HasUncommittedChanges, GitAddChanges, GitCommit,
          GitPush (Some ''publish-7''), NpmPublishedVersions ''a'' ''/repo/a'' []]
         @ ExecCommand True ''/tools/npm'' [''publish''] ''/repo/a'' []
         # [GitAddTag True ''a'' (Some ''1.1.0''), GitPush (Some ''publish-7''),
            GitCheckout (Some ''master'') None, GitPull, GitMerge ''publish-7'',
            GitPush (Some ''master''), GitDeleteBranch ''publish-7'' None,
            ConsoleLog (CHR 0x0A # ''Rush publish finished successfully.'')]
   \<and> is_npm_publish (ExecCommand True ''/tools/npm'' [''publish''] ''/repo/a'' [])
   \<and> \<not> list_ex is_tag
         [ValidatePolicy, NewPrereleaseToken None None, NewChangeManager,
          ChangeManagerLoad ''/repo/changes'' None None False, NewPublishGit (Some ''master''),
          GitCheckout (Some ''publish-7'') (Some True), ChangeManagerApply True,
          ChangeManagerUpdateChangelog True, HasUncommittedChanges, GitAddChanges, GitCommit,
          GitPush (Some ''publish-7''), NpmPublishedVersions ''a'' ''/repo/a'' []]
   \<and> fst (run flags repo jammed initial)
       = Throw (ExternalFailure (ExecCommand True ''/tools/npm'' [''publish''] ''/repo/a'' []))
   \<and> \<not> list_ex is_tag (trace (snd (run flags repo jammed initial)))"
proof -
  have f: "\<not> includeAll_value flags" by (simp add: flags_def)
  have tr: "trace (snd (run flags repo quiet initial))
       = [ValidatePolicy, NewPrereleaseToken None None, NewChangeManager,
          ChangeManagerLoad ''/repo/changes'' None None False, NewPublishGit (Some ''master''),
          GitCheckout (Some ''publish-7'') (Some True), ChangeManagerApply True,
          ChangeManagerUpdateChangelog True, HasUncommittedChanges, GitAddChanges, GitCommit,
          GitPush (Some ''publish-7''), NpmPublishedVersions ''a'' ''/repo/a'' []]
         @ ExecCommand True ''/tools/npm'' [''publish''] ''/repo/a'' []
         # [GitAddTag True ''a'' (Some ''1.1.0''), GitPush (Some ''publish-7''),
            GitCheckout (Some ''master'') None, GitPull, GitMerge ''publish-7'',
            GitPush (Some ''master''), GitDeleteBranch ''publish-7'' None,
            ConsoleLog (CHR 0x0A # ''Rush publish finished successfully.'')]"
    by (simp add: example_changes_run)
  have stop: "fst (run flags repo jammed initial)
       = Throw (ExternalFailure (ExecCommand True ''/tools/npm'' [''publish''] ''/repo/a'' []))"
    by (simp add: run_defs example_defs jammed_def)
  have e: "is_npm_publish (ExecCommand True ''/tools/npm'' [''publish''] ''/repo/a'' [])" by simp
  from publish_pass_before_tag_pass
         [OF f, where cfg = repo and w = quiet
            and e = "ExecCommand True ''/tools/npm'' [''publish''] ''/repo/a'' []"
            and pre = "[ValidatePolicy, NewPrereleaseToken None None, NewChangeManager,
          ChangeManagerLoad ''/repo/changes'' None None False, NewPublishGit (Some ''master''),
          GitCheckout (Some ''publish-7'') (Some True), ChangeManagerApply True,
          ChangeManagerUpdateChangelog True, HasUncommittedChanges, GitAddChanges, GitCommit,
          GitPush (Some ''publish-7''), NpmPublishedVersions ''a'' ''/repo/a'' []]"
            and post = "[GitAddTag True ''a'' (Some ''1.1.0''), GitPush (Some ''publish-7''),
            GitCheckout (Some ''master'') None, GitPull, GitMerge ''publish-7'',
            GitPush (Some ''master''), GitDeleteBranch ''publish-7'' None,
            ConsoleLog (CHR 0x0A # ''Rush publish finished successfully.'')]"]
       publish_pass_before_tag_pass
         [OF f, where cfg = repo and w = jammed
            and e = "ExecCommand True ''/tools/npm'' [''publish''] ''/repo/a'' []"]
       tr stop e f
  show ?thesis by simp
qed

subsection \<open>The tag of a hotfix\<close>


definition has_hotfix :: "IChangeInfo list \<Rightarrow> bool" where
  "has_hotfix cs = list_ex (\<lambda>c. changeType c = Some hotfix) cs"

definition override_after :: "IChangeInfo list \<Rightarrow> string option" where
  "override_after cs = (if has_hotfix cs then Some ''hotfix'' else None)"




lemma overrideTag_state:
  "snd (overrideTag cs s) = (if has_hotfix cs then s\<lparr>hotfixTagOverride := Some ''hotfix''\<rparr> else s)"
  by (induction cs) (auto simp: has_hotfix_def)







subsection \<open>The publish pass of "publish changes"\<close>

text \<open>
  The spec's words for the publish pass, as amended, as the list of calls it is to make.
  \<open>started\<close> is what a run has done when the pass begins.  A record that is not above
  \<open>dependency\<close> adds nothing.  For one that is: without a project of that name, the diagnostic;
  otherwise the registry query, followed by the diagnostic when the version is published, by
  the publish command when it is not and the project's \<open>shouldPublish\<close> is true, and by nothing
  when it is false.  The publish command carries the tag \<open>hotfix\<close> when the list holds a hotfix.
\<close>

definition started :: "parameters \<Rightarrow> RushConfiguration \<Rightarrow> world \<Rightarrow> event list" where
  "started p cfg w =
     applied p cfg w
     @ [HasUncommittedChanges, GitAddChanges, GitCommit,
        GitPush (Some (''publish-'' @ string_of_nat (date_getTime w)))]"

definition record_events ::
  "parameters \<Rightarrow> RushConfiguration \<Rightarrow> world \<Rightarrow> string option \<Rightarrow> event list \<Rightarrow> IChangeInfo
     \<Rightarrow> event list" where
  "record_events p cfg w tag h change =
     (if above_dependency change then
        (case map_of (projectsByName cfg) (change_packageName change) of
           None \<Rightarrow>
             [ConsoleLog (''Skip '' @ change_packageName change @ ''. Failed to find its project.'')]
         | Some project \<Rightarrow>
             if version project \<in> set (published p w h project) then
               [query p w project,
                ConsoleLog (''Skip '' @ change_packageName change @ ''. Package exists.'')]
             else if shouldPublish project then
               [query p w project, publishCommand p cfg w tag (projectFolder project)]
             else [query p w project])
      else [])"

fun records_events ::
  "parameters \<Rightarrow> RushConfiguration \<Rightarrow> world \<Rightarrow> string option \<Rightarrow> event list \<Rightarrow> IChangeInfo list
     \<Rightarrow> event list" where
  "records_events p cfg w tag h [] = []"
| "records_events p cfg w tag h (change # rest) =
     record_events p cfg w tag h change
     @ records_events p cfg w tag (h @ record_events p cfg w tag h change) rest"

definition publish_pass_calls :: "parameters \<Rightarrow> RushConfiguration \<Rightarrow> world \<Rightarrow> event list" where
  "publish_pass_calls p cfg w =
     records_events p cfg w (override_after (changeManager_changes w)) (started p cfg w)
       (changeManager_changes w)"

text \<open>Example inputs: a change above \<open>dependency\<close> for the private package; a change list with
  a dependency bump only; a change list with one record of every kind, and a registry that
  has version 1.0.0 of package a.\<close>

definition private_change :: IChangeInfo where
  "private_change = \<lparr>change_packageName = ''b'', changeType = Some minor,
                      newVersion = Some ''2.1.0''\<rparr>"

definition private_bump :: world where
  "private_bump = quiet\<lparr>changeManager_changes := [private_change]\<rparr>"

definition dependency_bump :: world where
  "dependency_bump =
     quiet\<lparr>changeManager_changes :=
             [\<lparr>change_packageName = ''a'', changeType = Some dependency, newVersion = Some ''1.0.1''\<rparr>]\<rparr>"

definition mixed :: world where
  "mixed =
     quiet\<lparr>changeManager_changes :=
             [\<lparr>change_packageName = ''a'', changeType = Some patch, newVersion = Some ''1.0.1''\<rparr>,
              \<lparr>change_packageName = ''b'', changeType = Some dependency, newVersion = None\<rparr>,
              private_change,
              \<lparr>change_packageName = ''c'', changeType = Some major, newVersion = Some ''3.0.0''\<rparr>]\<rparr>"

definition known :: world where
  "known = mixed\<lparr>npm_publishedVersions := (\<lambda>h n f e. if n = ''a'' then [''1.0.0''] else [])\<rparr>"

lemma run_no_publish:
  assumes "\<not> includeAll_value p"
    and "\<And>c. c \<in> set (changeManager_changes w) \<Longrightarrow> \<not> above_dependency c"
  shows "trace_ok (\<lambda>pre e. \<not> is_npm_publish e) (trace (snd (run p cfg w initial)))"
proof -
  let ?I = "inv (\<lambda>pre e. \<not> is_npm_publish e)"
  have st: "stable_on plain ?I"
    by (rule stable_on_inv) (simp add: plain_def)
  have pass: "hoare ?I (publishChange p cfg w (projectsByName cfg) c) ?I"
    if "c \<in> set (changeManager_changes w)" for c
    using assms(2) [OF that] by (simp add: publishChange_def hoare_return)
  have tags: "hoare ?I (gitAddTag_change p cfg w c) ?I" for c
    by (rule gitAddTag_change_hoare) (simp_all add: trace_ok_snoc)
  have "hoare ?I (run p cfg w) ?I"
    by (intro run_stable [OF st] publishChanges_stable [OF st] pass tags hoare_overrideTag_trace)
       (simp_all add: assms(1))
  moreover have "?I initial" by (simp add: initial_def trace_ok_Nil)
  ultimately show ?thesis by (rule hoareD)
qed

lemma publishChange_performs:
  "performs w (publishChange p cfg w (projectsByName cfg) change) s
     (record_events p cfg w (hotfixTagOverride s) (trace s) change) ()"
proof (cases "above_dependency change")
  case False
  then show ?thesis by (simp add: publishChange_def record_events_def performs_return)
next
  case above: True
  show ?thesis
  proof (cases "map_of (projectsByName cfg) (change_packageName change)")
    case None
    then show ?thesis
      using above by (simp add: publishChange_def record_events_def performs_console_log)
  next
    case (Some project)
    let ?n = "change_packageName change"
    let ?exists = "version project \<in> set (published p w (trace s) project)"
    let ?next = "\<lambda>e. if \<not> e then npmPublish p cfg w ?n (projectFolder project)
                      else console_log (''Skip '' @ ?n @ ''. Package exists.'')"
    let ?s1 = "s\<lparr>trace := trace s @ [query p w project]\<rparr>"
    have eq: "publishChange p cfg w (projectsByName cfg) change
                = andThen (packageExists p w project) ?next"
      using above Some by (simp add: publishChange_def)
    have step: "performs w (andThen (packageExists p w project) ?next) s
                  ([query p w project] @ evs) ()"
      if "performs w (?next ?exists) ?s1 evs ()" for evs
      using performs_andThen [where f = ?next, OF performs_packageExists [of w p project s] that] .
    show ?thesis
    proof (cases ?exists)
      case True
      then have "performs w (?next ?exists) ?s1
                   [ConsoleLog (''Skip '' @ ?n @ ''. Package exists.'')] ()"
        by (simp add: performs_console_log)
      from step [OF this] show ?thesis
        unfolding eq using above Some True by (simp add: record_events_def)
    next
      case False
      show ?thesis
      proof (cases "shouldPublish project")
        case True
        from performs_npmPublish [OF Some True, of w p "projectFolder project" ?s1]
        have "performs w (?next ?exists) ?s1
                [publishCommand p cfg w (hotfixTagOverride s) (projectFolder project)] ()"
          using False by simp
        from step [OF this] show ?thesis
          unfolding eq using above Some False True by (simp add: record_events_def)
      next
        case np: False
        have "npmPublish p cfg w ?n (projectFolder project) = return ()"
          by (rule ext) (simp add: npmPublish_skip [OF Some np] return_def)
        then have "performs w (?next ?exists) ?s1 [] ()"
          using False by (simp add: performs_return)
        from step [OF this] show ?thesis
          unfolding eq using above Some False np by (simp add: record_events_def)
      qed
    qed
  qed
qed

lemma publish_pass_performs:
  "performs w (seq (map (publishChange p cfg w (projectsByName cfg)) cs)) s
     (records_events p cfg w (hotfixTagOverride s) (trace s) cs) ()"
proof (induction cs arbitrary: s)
  case Nil
  show ?case by (simp add: performs_seq_Nil del: seq.simps)
next
  case (Cons c cs)
  let ?evs = "record_events p cfg w (hotfixTagOverride s) (trace s) c"
  have "performs w (seq (map (publishChange p cfg w (projectsByName cfg)) cs))
          (s\<lparr>trace := trace s @ ?evs\<rparr>)
          (records_events p cfg w (hotfixTagOverride s) (trace s @ ?evs) cs) ()"
    using Cons.IH [of "s\<lparr>trace := trace s @ ?evs\<rparr>"] by simp
  with publishChange_performs [of w p cfg c s]
  have "performs w (seq (publishChange p cfg w (projectsByName cfg) c
                         # map (publishChange p cfg w (projectsByName cfg)) cs)) s
          (?evs @ records_events p cfg w (hotfixTagOverride s) (trace s @ ?evs) cs) ()"
    by (rule performs_seq_Cons)
  then show ?case by (simp del: seq.simps)
qed
lemma run_reaches_pass:
  assumes "\<not> regenerateChangelogs_value p" and "\<not> includeAll_value p"
    and "\<not> invalid_combination p"
    and "changeManager_hasChanges w"
    and "versionControl_hasUncommittedChanges w (applied p cfg w)"
    and "through w [] (started p cfg w)"
    and core: "core = [overrideTag (changeManager_changes w),
                   seq (map (publishChange p cfg w (projectsByName cfg)) (changeManager_changes w)),
                   gitAddTags p cfg w (changeManager_changes w),
                   call w (GitPush (Some (''publish-'' @ string_of_nat (date_getTime w)))),
                   call w (GitCheckout (targetBranch_value p) None),
                   call w GitPull,
                   call w (GitMerge (''publish-'' @ string_of_nat (date_getTime w))),
                   call w (GitPush (targetBranch_value p)),
                   call w (GitDeleteBranch (''publish-'' @ string_of_nat (date_getTime w)) None)]"
  shows "run p cfg w initial =
           andThen (seq core)
             (\<lambda>u. console_log (os_EOL w @ colors_green w ''Rush publish finished successfully.''))
             \<lparr>trace = started p cfg w, hotfixTagOverride = None\<rparr>"
proof -
  let ?temp = "''publish-'' @ string_of_nat (date_getTime w)"
  have h: "versionControl_hasUncommittedChanges w
             [ValidatePolicy,
              NewPrereleaseToken (prereleaseName_value p) (suffix_value p),
              NewChangeManager,
              ChangeManagerLoad (changesFolder cfg) (prereleaseName_value p) (suffix_value p)
                (addCommitDetails_value p),
              NewPublishGit (targetBranch_value p),
              GitCheckout (Some ?temp) (Some True),
              ChangeManagerApply (apply_value p),
              ChangeManagerUpdateChangelog (apply_value p)]"
    using assms(5) by (simp add: applied_def)
  have eq: "run p cfg w =
      seq [call w ValidatePolicy,
           seq [validate p,
                seq [call w (NewPrereleaseToken (prereleaseName_value p) (suffix_value p)),
                     seq [call w NewChangeManager,
                          call w (ChangeManagerLoad (changesFolder cfg) (prereleaseName_value p)
                                    (suffix_value p) (addCommitDetails_value p)),
                          seq [call w (NewPublishGit (targetBranch_value p)),
                               call w (GitCheckout (Some ?temp) (Some True)),
                               call w (ChangeManagerApply (apply_value p)),
                               call w (ChangeManagerUpdateChangelog (apply_value p)),
                               andThen (ask w HasUncommittedChanges
                                          (versionControl_hasUncommittedChanges w))
                                 (\<lambda>uncommitted.
                                    if uncommitted then
                                      seq (call w GitAddChanges # call w GitCommit
                                           # call w (GitPush (Some ?temp)) # core)
                                    else
                                      seq [call w (GitCheckout (targetBranch_value p) None),
                                           call w (GitDeleteBranch ?temp (Some False))])]]],
                console_log (os_EOL w @ colors_green w ''Rush publish finished successfully.'')]]"
    using assms(1,2,4) unfolding core
    by (simp add: run_def publishChanges_def Let_def cong: if_cong)
  obtain r t where c: "seq core \<lparr>trace = started p cfg w, hotfixTagOverride = None\<rparr> = (r, t)"
    by (cases "seq core \<lparr>trace = started p cfg w, hotfixTagOverride = None\<rparr>")
  show ?thesis
    unfolding eq
    using h assms(6) c
    by (cases r)
       (simp_all add: seq_step call_def ask_def andThen_def validate_valid [OF assms(3)]
          initial_def started_def applied_def console_log_def
        del: seq.simps(2))
qed
lemma run_publish_pass:
  assumes "\<not> regenerateChangelogs_value p" and "\<not> includeAll_value p"
    and "\<not> invalid_combination p"
    and "changeManager_hasChanges w"
    and "versionControl_hasUncommittedChanges w (applied p cfg w)"
    and "through w [] (started p cfg w)"
  shows "\<exists>rest. trace (snd (run p cfg w initial))
                  = started p cfg w
                    @ until_failure w (started p cfg w) (publish_pass_calls p cfg w) @ rest
           \<and> \<not> list_ex is_npm_publish rest \<and> \<not> list_ex is_query rest
           \<and> (through w (started p cfg w) (publish_pass_calls p cfg w) \<or> rest = [])"
proof -
  let ?cs = "changeManager_changes w"
  let ?temp = "''publish-'' @ string_of_nat (date_getTime w)"
  let ?calls = "publish_pass_calls p cfg w"
  define fin where
    "fin = (\<lambda>u :: unit. console_log (os_EOL w @ colors_green w ''Rush publish finished successfully.''))"
  define pass where "pass = seq (map (publishChange p cfg w (projectsByName cfg)) ?cs)"
  define tail where "tail = [gitAddTags p cfg w ?cs,
                   call w (GitPush (Some ?temp)),
                   call w (GitCheckout (targetBranch_value p) None),
                   call w GitPull,
                   call w (GitMerge ?temp),
                   call w (GitPush (targetBranch_value p)),
                   call w (GitDeleteBranch ?temp None)]"
  define s0 where "s0 = \<lparr>trace = started p cfg w, hotfixTagOverride = None\<rparr>"
  define s1 where "s1 = \<lparr>trace = started p cfg w, hotfixTagOverride = override_after ?cs\<rparr>"
  have core: "overrideTag ?cs # pass # tail
                = [overrideTag ?cs,
                   seq (map (publishChange p cfg w (projectsByName cfg)) ?cs),
                   gitAddTags p cfg w ?cs,
                   call w (GitPush (Some ?temp)),
                   call w (GitCheckout (targetBranch_value p) None),
                   call w GitPull,
                   call w (GitMerge ?temp),
                   call w (GitPush (targetBranch_value p)),
                   call w (GitDeleteBranch ?temp None)]"
    by (simp add: pass_def tail_def)
  have run: "run p cfg w initial = andThen (seq (overrideTag ?cs # pass # tail)) fin s0"
    unfolding fin_def s0_def by (rule run_reaches_pass [OF assms core])
  have "snd (overrideTag ?cs s0) = s1"
    by (simp add: overrideTag_state override_after_def s0_def s1_def)
  then have ov: "overrideTag ?cs s0 = (Ok (), s1)"
    using overrideTag_Ok [of ?cs s0] by (cases "overrideTag ?cs s0") simp
  have core_eq: "seq (overrideTag ?cs # pass # tail) s0 = seq (pass # tail) s1"
    using ov by simp
  have "performs w pass s1 (records_events p cfg w (hotfixTagOverride s1) (trace s1) ?cs) ()"
    unfolding pass_def by (rule publish_pass_performs)
  then have P: "performs w pass s1 ?calls ()"
    by (simp add: s1_def publish_pass_calls_def)
  have tr1: "trace s1 = started p cfg w" by (simp add: s1_def)
  show ?thesis
  proof (cases "through w (started p cfg w) ?calls")
    case True
    define s2 where "s2 = s1\<lparr>trace := started p cfg w @ ?calls\<rparr>"
    define J where "J = (\<lambda>s :: state. \<exists>rest. trace s = (started p cfg w @ ?calls) @ rest
                             \<and> \<not> list_ex is_npm_publish rest \<and> \<not> list_ex is_query rest)"
    have "pass s1 = (Ok (), s2)"
      using P True tr1 by (cases "pass s1") (simp add: performs_def until_failure_through s2_def)
    then have "seq (pass # tail) s1 = seq tail s2" by simp
    then have run2: "run p cfg w initial = andThen (seq tail) fin s2"
      unfolding run andThen_def core_eq by simp
    have st: "stable_on (\<lambda>e. \<not> is_npm_publish e \<and> \<not> is_query e) J"
      unfolding stable_on_def J_def
    proof (intro allI impI)
      fix e and s :: state
      assume a: "(\<not> is_npm_publish e \<and> \<not> is_query e)
                 \<and> (\<exists>rest. trace s = (started p cfg w @ ?calls) @ rest
                        \<and> \<not> list_ex is_npm_publish rest \<and> \<not> list_ex is_query rest)"
      then obtain rest where "trace s = (started p cfg w @ ?calls) @ rest"
        "\<not> list_ex is_npm_publish rest" "\<not> list_ex is_query rest" by blast
      then show "\<exists>rest'. trace (s\<lparr>trace := trace s @ [e]\<rparr>) = (started p cfg w @ ?calls) @ rest'
                   \<and> \<not> list_ex is_npm_publish rest' \<and> \<not> list_ex is_query rest'"
        using a by (intro exI [of _ "rest @ [e]"]) simp
    qed
    have tags: "hoare J (gitAddTags p cfg w ?cs) J"
      unfolding gitAddTags_def
      by (intro hoare_seq_map gitAddTag_change_hoare stable_onD [OF st]) simp_all
    have "hoare J (seq tail) J"
      unfolding tail_def
      by (intro seq_inv tags call_stable [OF st]) simp_all
    moreover have "hoare J (fin u) J" for u
      unfolding fin_def by (rule log_stable [OF st]) simp
    ultimately have "hoare J (andThen (seq tail) fin) J"
      by (rule hoare_andThen_inv)
    moreover have "J s2" by (simp add: J_def s2_def)
    ultimately have "J (snd (run p cfg w initial))"
      unfolding run2 by (rule hoareD)
    then show ?thesis
      using True by (auto simp: J_def until_failure_through)
  next
    case False
    then obtain e where "pass s1 = (Throw (ExternalFailure e),
                           s1\<lparr>trace := started p cfg w @ until_failure w (started p cfg w) ?calls\<rparr>)"
      using P tr1 by (cases "pass s1") (auto simp: performs_def)
    then have "seq (pass # tail) s1
                 = (Throw (ExternalFailure e),
                    s1\<lparr>trace := started p cfg w @ until_failure w (started p cfg w) ?calls\<rparr>)"
      by simp
    then have "run p cfg w initial
                 = (Throw (ExternalFailure e),
                    s1\<lparr>trace := started p cfg w @ until_failure w (started p cfg w) ?calls\<rparr>)"
      unfolding run andThen_def core_eq by simp
    then show ?thesis by (intro exI [of _ "[]"]) simp
  qed
qed

text \<open>
  C4, as the spec states it: a record above \<open>dependency\<close> whose project exists and whose version
  the registry lacks has the registry publish operation invoked.  For the private package
  (\<open>shouldPublish\<close> false) the whole run issues the registry query and no publish command.
\<close>

theorem publish_pass_counterexample:
  "above_dependency private_change
   \<and> map_of (projectsByName repo) (change_packageName private_change) = Some projectB
   \<and> version projectB \<notin> set (npm_publishedVersions private_bump [] ''b'' ''/repo/b'' [])
   \<and> run flags repo private_bump initial =
       (Ok (), \<lparr>trace =
          [ValidatePolicy, NewPrereleaseToken None None, NewChangeManager,
           ChangeManagerLoad ''/repo/changes'' None None False, NewPublishGit (Some ''master''),
           GitCheckout (Some ''publish-7'') (Some True), ChangeManagerApply True,
           ChangeManagerUpdateChangelog True, HasUncommittedChanges, GitAddChanges, GitCommit,
           GitPush (Some ''publish-7''), NpmPublishedVersions ''b'' ''/repo/b'' [],
           GitPush (Some ''publish-7''), GitCheckout (Some ''master'') None, GitPull,
           GitMerge ''publish-7'', GitPush (Some ''master''), GitDeleteBranch ''publish-7'' None,
           ConsoleLog (CHR 0x0A # ''Rush publish finished successfully.'')],
          hotfixTagOverride = None\<rparr>)
   \<and> \<not> list_ex is_npm_publish (trace (snd (run flags repo private_bump initial)))"
  by (simp add: run_defs example_defs private_bump_def private_change_def)

text \<open>
  C4, amended.  In "publish changes" mode a change list with no record above \<open>dependency\<close>
  gives a run without any publish command.  And a run that reaches the publish pass (valid
  parameters, changes loaded, uncommitted changes after applying them, no call failed so far)
  then makes the calls of \<open>publish_pass_calls\<close>, in that order, up to the first call that fails:
  for every record above \<open>dependency\<close>, in the order of the list, the diagnostic when no project
  has that name; otherwise the registry query, and after it the diagnostic when the version is
  published, the publish command when it is not and the project's \<open>shouldPublish\<close> is true, and
  nothing when it is false.  Whatever the run does after the pass holds no registry query and
  no publish command, and after a failed call of the pass it does nothing.
\<close>

theorem publish_pass_per_record:
  "(\<not> includeAll_value p \<and> \<not> list_ex above_dependency (changeManager_changes w) \<longrightarrow>
      \<not> list_ex is_npm_publish (trace (snd (run p cfg w initial))))
   \<and> (\<not> regenerateChangelogs_value p \<and> \<not> includeAll_value p \<and> \<not> invalid_combination p
        \<and> changeManager_hasChanges w
        \<and> versionControl_hasUncommittedChanges w (applied p cfg w)
        \<and> through w [] (started p cfg w) \<longrightarrow>
        (\<exists>rest. trace (snd (run p cfg w initial))
                  = started p cfg w
                    @ until_failure w (started p cfg w) (publish_pass_calls p cfg w) @ rest
           \<and> \<not> list_ex is_npm_publish rest \<and> \<not> list_ex is_query rest
           \<and> (through w (started p cfg w) (publish_pass_calls p cfg w) \<or> rest = [])))"
proof (intro conjI impI)
  assume a: "\<not> includeAll_value p \<and> \<not> list_ex above_dependency (changeManager_changes w)"
  then have "trace_ok (\<lambda>pre e. \<not> is_npm_publish e) (trace (snd (run p cfg w initial)))"
    by (intro run_no_publish) (auto simp: list_ex_iff)
  then show "\<not> list_ex is_npm_publish (trace (snd (run p cfg w initial)))"
    by (auto simp: list_ex_iff dest: trace_ok_memD)
next
  assume "\<not> regenerateChangelogs_value p \<and> \<not> includeAll_value p \<and> \<not> invalid_combination p
        \<and> changeManager_hasChanges w
        \<and> versionControl_hasUncommittedChanges w (applied p cfg w)
        \<and> through w [] (started p cfg w)"
  then show "\<exists>rest. trace (snd (run p cfg w initial))
                  = started p cfg w
                    @ until_failure w (started p cfg w) (publish_pass_calls p cfg w) @ rest
           \<and> \<not> list_ex is_npm_publish rest \<and> \<not> list_ex is_query rest
           \<and> (through w (started p cfg w) (publish_pass_calls p cfg w) \<or> rest = [])"
    by (intro run_publish_pass) simp_all
qed

theorem publish_pass_per_record_witness:
  "\<not> includeAll_value flags
   \<and> \<not> list_ex above_dependency (changeManager_changes dependency_bump)
   \<and> \<not> list_ex is_npm_publish (trace (snd (run flags repo dependency_bump initial)))
   \<and> \<not> regenerateChangelogs_value flags \<and> \<not> invalid_combination flags
   \<and> changeManager_hasChanges mixed
   \<and> versionControl_hasUncommittedChanges mixed (applied flags repo mixed)
   \<and> through mixed [] (started flags repo mixed)
   \<and> publish_pass_calls flags repo mixed
       = [NpmPublishedVersions ''a'' ''/repo/a'' [],
          ExecCommand True ''/tools/npm'' [''publish''] ''/repo/a'' [],
          NpmPublishedVersions ''b'' ''/repo/b'' [],
          ConsoleLog ''Skip c. Failed to find its project.'']
   \<and> through mixed (started flags repo mixed) (publish_pass_calls flags repo mixed)
   \<and> trace (snd (run flags repo mixed initial))
       = started flags repo mixed
         @ [NpmPublishedVersions ''a'' ''/repo/a'' [],
            ExecCommand True ''/tools/npm'' [''publish''] ''/repo/a'' [],
            NpmPublishedVersions ''b'' ''/repo/b'' [],
            ConsoleLog ''Skip c. Failed to find its project.'']
         @ [GitAddTag True ''a'' (Some ''1.0.1'')]
   \<and> publish_pass_calls flags repo known
       = [NpmPublishedVersions ''a'' ''/repo/a'' [],
          ConsoleLog ''Skip a. Package exists.'',
          NpmPublishedVersions ''b'' ''/repo/b'' [],
          ConsoleLog ''Skip c. Failed to find its project.'']
   \<and> trace (snd (run flags repo known initial))
       = started flags repo known
         @ [NpmPublishedVersions ''a'' ''/repo/a'' [],
            ConsoleLog ''Skip a. Package exists.'',
            NpmPublishedVersions ''b'' ''/repo/b'' [],
            ConsoleLog ''Skip c. Failed to find its project.'']
         @ [GitAddTag True ''a'' (Some ''1.0.1'')]
   \<and> \<not> through jammed (started flags repo jammed) (publish_pass_calls flags repo jammed)
   \<and> trace (snd (run flags repo jammed initial))
       = started flags repo jammed
         @ [NpmPublishedVersions ''a'' ''/repo/a'' [],
            ExecCommand True ''/tools/npm'' [''publish''] ''/repo/a'' []]"
proof -
  have f: "\<not> includeAll_value flags" "\<not> regenerateChangelogs_value flags"
    "\<not> invalid_combination flags"
    by (simp_all add: flags_def invalid_combination_def)
  have d: "\<not> list_ex above_dependency (changeManager_changes dependency_bump)"
    by (simp add: dependency_bump_def above_dependency_def)
  have w: "changeManager_hasChanges mixed"
    "versionControl_hasUncommittedChanges mixed (applied flags repo mixed)"
    "through mixed [] (started flags repo mixed)"
    "changeManager_hasChanges known"
    "versionControl_hasUncommittedChanges known (applied flags repo known)"
    "through known [] (started flags repo known)"
    "changeManager_hasChanges jammed"
    "versionControl_hasUncommittedChanges jammed (applied flags repo jammed)"
    "through jammed [] (started flags repo jammed)"
    by (simp_all add: mixed_def known_def jammed_def quiet_def started_def applied_def)
  have calls: "publish_pass_calls flags repo mixed
       = [NpmPublishedVersions ''a'' ''/repo/a'' [],
          ExecCommand True ''/tools/npm'' [''publish''] ''/repo/a'' [],
          NpmPublishedVersions ''b'' ''/repo/b'' [],
          ConsoleLog ''Skip c. Failed to find its project.'']"
    "publish_pass_calls flags repo known
       = [NpmPublishedVersions ''a'' ''/repo/a'' [],
          ConsoleLog ''Skip a. Package exists.'',
          NpmPublishedVersions ''b'' ''/repo/b'' [],
          ConsoleLog ''Skip c. Failed to find its project.'']"
    "publish_pass_calls flags repo jammed
       = [NpmPublishedVersions ''a'' ''/repo/a'' [],
          ExecCommand True ''/tools/npm'' [''publish''] ''/repo/a'' []]"
    by (simp_all add: publish_pass_calls_def record_events_def override_after_def has_hotfix_def
          above_dependency_def publishCommand_def publishArgs_def query_def published_def
          registryEnv_def example_defs mixed_def known_def jammed_def private_change_def)
  have t: "through mixed (started flags repo mixed) (publish_pass_calls flags repo mixed)"
    "\<not> through jammed (started flags repo jammed) (publish_pass_calls flags repo jammed)"
    unfolding calls by (simp_all add: mixed_def jammed_def quiet_def)
  have r: "trace (snd (run flags repo mixed initial))
       = started flags repo mixed
         @ [NpmPublishedVersions ''a'' ''/repo/a'' [],
            ExecCommand True ''/tools/npm'' [''publish''] ''/repo/a'' [],
            NpmPublishedVersions ''b'' ''/repo/b'' [],
            ConsoleLog ''Skip c. Failed to find its project.'']
         @ [GitAddTag True ''a'' (Some ''1.0.1'')]"
    "trace (snd (run flags repo known initial))
       = started flags repo known
         @ [NpmPublishedVersions ''a'' ''/repo/a'' [],
            ConsoleLog ''Skip a. Package exists.'',
            NpmPublishedVersions ''b'' ''/repo/b'' [],
            ConsoleLog ''Skip c. Failed to find its project.'']
         @ [GitAddTag True ''a'' (Some ''1.0.1'')]"
    "trace (snd (run flags repo jammed initial))
       = started flags repo jammed
         @ [NpmPublishedVersions ''a'' ''/repo/a'' [],
            ExecCommand True ''/tools/npm'' [''publish''] ''/repo/a'' []]"
    by (simp_all add: run_defs example_defs mixed_def known_def jammed_def private_change_def
          started_def applied_def throw_def)
  from publish_pass_per_record [where p = flags and w = dependency_bump and cfg = repo]
       publish_pass_per_record [where p = flags and w = mixed and cfg = repo]
       publish_pass_per_record [where p = flags and w = known and cfg = repo]
       publish_pass_per_record [where p = flags and w = jammed and cfg = repo]
       f d w calls t r
  show ?thesis by simp
qed

subsection \<open>"Publish all": who is processed, and the push\<close>

fun is_push :: "event \<Rightarrow> bool" where
  "is_push (GitPush b) = True"
| "is_push e = False"

text \<open>Since the trace was \<open>T\<close>: no push, and a publish command exactly when \<open>updated\<close> is set.\<close>

definition tracked :: "event list \<Rightarrow> bool \<Rightarrow> state \<Rightarrow> bool" where
  "tracked T updated s =
     (\<exists>evs. trace s = T @ evs \<and> \<not> list_ex is_push evs \<and> updated = list_ex is_npm_publish evs)"

definition at_least :: "nat \<Rightarrow> state \<Rightarrow> bool" where
  "at_least k s = (k \<le> length (trace s))"

lemma stable_at_least: "stable_on C (at_least k)"
  by (simp add: stable_on_def at_least_def)

lemma stable_tracked: "stable_on aux (tracked T u)"
  unfolding stable_on_def tracked_def
proof (intro allI impI)
  fix e and s :: state
  assume a: "aux e \<and> (\<exists>evs. trace s = T @ evs \<and> \<not> list_ex is_push evs
                          \<and> u = list_ex is_npm_publish evs)"
  then obtain evs where evs: "trace s = T @ evs" "\<not> list_ex is_push evs"
    "u = list_ex is_npm_publish evs" by blast
  have "\<not> is_push e" "\<not> is_npm_publish e" using a by (cases e; simp)+
  then show "\<exists>evs'. trace (s\<lparr>trace := trace s @ [e]\<rparr>) = T @ evs' \<and> \<not> list_ex is_push evs'
                 \<and> u = list_ex is_npm_publish evs'"
    using evs by (intro exI [of _ "evs @ [e]"]) simp
qed

lemma npmPublish_at_least: "hoare (at_least k) (npmPublish p cfg w n path) (at_least k)"
  by (rule npmPublish_hoare) (simp_all add: at_least_def)

lemma seq3_progress:
  assumes A: "hoare (at_least (length (trace s))) A (at_least (length (trace s)))"
    and C: "hoare (at_least (Suc (length (trace s)))) C (at_least (Suc (length (trace s))))"
  shows "(\<exists>x. fst (seq [A, call w e, C] s) = Throw x)
         \<or> length (trace s) < length (trace (snd (seq [A, call w e, C] s)))"
proof (cases "fst (A s)")
  case (Throw x)
  then show ?thesis by (simp add: seq_step del: seq.simps(2))
next
  case okA: (Ok u)
  have k: "length (trace s) \<le> length (trace (snd (A s)))"
    using hoareD [OF A, of s] by (simp add: at_least_def)
  show ?thesis
  proof (cases "fst (call w e (snd (A s)))")
    case (Throw x)
    then show ?thesis using okA by (simp add: seq_step del: seq.simps(2))
  next
    case (Ok u')
    have "at_least (Suc (length (trace s))) (snd (call w e (snd (A s))))"
      using k by (simp add: call_def ask_def at_least_def)
    from hoareD [OF C this]
    have "length (trace s) < length (trace (snd (C (snd (call w e (snd (A s)))))))"
      by (simp add: at_least_def)
    moreover have "snd (seq [A, call w e, C] s) = snd (C (snd (call w e (snd (A s)))))"
      using okA Ok by (simp add: seq_step split: result.splits del: seq.simps(2))
    ultimately show ?thesis by simp
  qed
qed

lemma npmPack_progress:
  "(\<exists>e. fst (npmPack p cfg w n project s) = Throw e)
   \<or> length (trace s) < length (trace (snd (npmPack p cfg w n project s)))"
proof -
  let ?k = "length (trace s)"
  have A: "hoare (at_least ?k)
     (if truthy (releaseType_value p) \<and> releaseType_value p \<noteq> Some ''internal'' then
        (if releaseType_value p \<noteq> Some ''public'' \<and> releaseType_value p \<noteq> Some ''beta'' then
           throw (Error (''Invalid release type '' @ [CHR 0x22]
                           @ the (releaseType_value p) @ [CHR 0x22]))
         else updateAPIFile p w n project)
      else return ()) (at_least ?k)"
    by (intro seq_inv updateAPIFile_stable stable_at_least)
  have C: "hoare (at_least (Suc ?k))
     (if publish_value p then
        call w (FileSystemMove (path_join w [projectFolder project, calculateTarballName project])
                  (path_join w [if truthy (releaseFolder_value p) then the (releaseFolder_value p)
                                else path_join w [commonTempFolder cfg, ''artifacts'', ''packages''],
                                calculateTarballName project]) True)
      else return ()) (at_least (Suc ?k))"
    by (intro seq_inv call_stable [OF stable_at_least [where C = "\<lambda>e. True"]]) simp
  show ?thesis
    unfolding npmPack_def Let_def using A C by (rule seq3_progress)
qed


lemma publish_and_tag_progress:
  "(\<exists>e. fst (seq [npmPublish p cfg w n path, call w t] s) = Throw e)
   \<or> length (trace s) < length (trace (snd (seq [npmPublish p cfg w n path, call w t] s)))"
proof (cases "fst (npmPublish p cfg w n path s)")
  case (Throw e)
  then show ?thesis by (simp add: seq_step del: seq.simps(2))
next
  case (Ok u)
  have "length (trace s) \<le> length (trace (snd (npmPublish p cfg w n path s)))"
    using hoareD [OF npmPublish_at_least, of "length (trace s)" s] by (simp add: at_least_def)
  then show ?thesis using Ok
    by (simp add: seq_step call_def ask_def split: result.splits del: seq.simps(2))
qed

lemma callback_progress:
  assumes "qualifies p pkg"
  shows "(\<exists>e. fst (publishAll_callback p cfg w (n, pkg) updated s) = Throw e)
         \<or> length (trace s) < length (trace (snd (publishAll_callback p cfg w (n, pkg) updated s)))"
proof (cases "pack_value p")
  case True
  then have "publishAll_callback p cfg w (n, pkg) updated s
               = andThen (npmPack p cfg w n pkg) (\<lambda>u. return updated) s"
    using assms by (simp add: publishAll_callback_def qualifies_def)
  then show ?thesis
    using npmPack_progress [of p cfg w n pkg s]
    by (cases "npmPack p cfg w n pkg s") (auto simp: andThen_def return_def split: result.splits)
next
  case False
  let ?go = "seq [npmPublish p cfg w n (projectFolder pkg),
                  call w (GitAddTag (publish_value p \<and> \<not> truthy (registryUrl_value p))
                            n (Some (version pkg)))]"
  let ?skip = "console_log (''Skip '' @ n @ ''. Not updated.'')"
  have go: "(\<exists>e. fst (andThen ?go (\<lambda>u. return True) t) = Throw e)
            \<or> length (trace t) < length (trace (snd (andThen ?go (\<lambda>u. return True) t)))" for t
    using publish_and_tag_progress [of p cfg w n "projectFolder pkg"
            "GitAddTag (publish_value p \<and> \<not> truthy (registryUrl_value p)) n (Some (version pkg))" t]
    by (cases "?go t")
       (auto simp: andThen_def return_def split: result.splits simp del: seq.simps(2))
  have go': "length (trace t) \<le> length (trace (snd (andThen ?go (\<lambda>u. return True) t)))" for t
  proof -
    have "hoare (at_least (length (trace t))) (andThen ?go (\<lambda>u. return True))
            (at_least (length (trace t)))"
      by (intro seq_inv npmPublish_at_least call_stable [OF stable_at_least [where C = "\<lambda>e. True"]])
         simp
    from hoareD [OF this, of t] show ?thesis by (simp add: at_least_def)
  qed
  show ?thesis
  proof (cases "force_value p")
    case True
    then have "publishAll_callback p cfg w (n, pkg) updated s = andThen ?go (\<lambda>u. return True) s"
      using assms False by (simp add: publishAll_callback_def qualifies_def andThen_def return_def)
    then show ?thesis using go [of s] by simp
  next
    case nf: False
    let ?s1 = "s\<lparr>trace := trace s @ [query p w pkg]\<rparr>"
    show ?thesis
    proof (cases "fails w (trace s) (query p w pkg)")
      case True
      then show ?thesis using assms False nf
        by (simp add: publishAll_callback_def qualifies_def andThen_def packageExists_eq)
    next
      case ok: False
      show ?thesis
      proof (cases "version pkg \<in> set (published p w (trace s) pkg)")
        case True
        then show ?thesis using assms False nf ok
          by (simp add: publishAll_callback_def qualifies_def andThen_def packageExists_eq
                return_def console_log_def)
      next
        case False
        then have "publishAll_callback p cfg w (n, pkg) updated s
                     = andThen ?go (\<lambda>u. return True) ?s1"
          using assms \<open>\<not> pack_value p\<close> nf ok
          by (simp add: publishAll_callback_def qualifies_def andThen_def packageExists_eq
                return_def)
        then show ?thesis using go' [of ?s1] by simp
      qed
    qed
  qed
qed

lemma callback_processes:
  "(publishAll_callback p cfg w (n, pkg) updated s = (Ok updated, s)) = (\<not> qualifies p pkg)"
proof
  assume eq: "publishAll_callback p cfg w (n, pkg) updated s = (Ok updated, s)"
  show "\<not> qualifies p pkg"
  proof
    assume "qualifies p pkg"
    from callback_progress [OF this, of cfg w n updated s] show False by (simp add: eq)
  qed
next
  assume "\<not> qualifies p pkg"
  then show "publishAll_callback p cfg w (n, pkg) updated s = (Ok updated, s)"
    by (auto simp: publishAll_callback_def qualifies_def return_def)
qed


lemma tracked_snoc:
  "tracked T u s \<Longrightarrow> \<not> is_push e \<Longrightarrow>
   tracked T (u \<or> is_npm_publish e) (s\<lparr>trace := trace s @ [e]\<rparr>)"
  unfolding tracked_def
proof -
  assume a: "\<exists>evs. trace s = T @ evs \<and> \<not> list_ex is_push evs \<and> u = list_ex is_npm_publish evs"
    and e: "\<not> is_push e"
  then obtain evs where "trace s = T @ evs" "\<not> list_ex is_push evs"
    "u = list_ex is_npm_publish evs" by blast
  then show "\<exists>evs'. trace (s\<lparr>trace := trace s @ [e]\<rparr>) = T @ evs' \<and> \<not> list_ex is_push evs'
                 \<and> (u \<or> is_npm_publish e) = list_ex is_npm_publish evs'"
    using e by (intro exI [of _ "evs @ [e]"]) simp
qed

lemma publish_and_tag_tracked:
  assumes "map_of (projectsByName cfg) n = Some pkg" and "shouldPublish pkg"
    and "tracked T u s"
    and "seq [npmPublish p cfg w n path, call w (GitAddTag b n v)] s = (Ok (), s')"
  shows "tracked T True s'"
proof -
  let ?c = "publishCommand p cfg w (hotfixTagOverride s) path"
  have "s' = s\<lparr>trace := trace s @ [?c]\<rparr>\<lparr>trace := trace (s\<lparr>trace := trace s @ [?c]\<rparr>)
                                               @ [GitAddTag b n v]\<rparr>"
    using assms(4)
    by (simp add: npmPublish_command [OF assms(1,2)] call_def ask_def split: if_splits)
  moreover have "tracked T (u \<or> is_npm_publish ?c) (s\<lparr>trace := trace s @ [?c]\<rparr>)"
    using assms(3) by (rule tracked_snoc) (simp add: publishCommand_def)
  then have "tracked T (True \<or> is_npm_publish (GitAddTag b n v))
               (s\<lparr>trace := trace s @ [?c]\<rparr>\<lparr>trace := trace (s\<lparr>trace := trace s @ [?c]\<rparr>)
                                               @ [GitAddTag b n v]\<rparr>)"
    by (intro tracked_snoc) simp_all
  ultimately show ?thesis by simp
qed

lemma callback_tracked:
  assumes look: "map_of (projectsByName cfg) n = Some pkg"
    and tr: "tracked T u s"
    and res: "publishAll_callback p cfg w (n, pkg) u s = (Ok u', s')"
  shows "tracked T u' s'"
proof (cases "qualifies p pkg")
  case False
  then show ?thesis using tr res callback_processes [of p cfg w n pkg u s] by simp
next
  case q: True
  then have sp: "shouldPublish pkg" by (simp add: qualifies_def)
  let ?go = "seq [npmPublish p cfg w n (projectFolder pkg),
                  call w (GitAddTag (publish_value p \<and> \<not> truthy (registryUrl_value p))
                            n (Some (version pkg)))]"
  have go: "tracked T u t \<Longrightarrow> andThen ?go (\<lambda>u. return True) t = (Ok u', s') \<Longrightarrow> tracked T u' s'"
    for t
  proof -
    assume t: "tracked T u t" and r: "andThen ?go (\<lambda>u. return True) t = (Ok u', s')"
    then have "?go t = (Ok (), s')" "u' = True"
      by (cases "?go t"; cases "fst (?go t)";
          simp add: andThen_def return_def del: seq.simps(2))+
    with publish_and_tag_tracked [OF look sp t] show ?thesis by simp
  qed
  show ?thesis
  proof (cases "pack_value p")
    case True
    then have eq: "publishAll_callback p cfg w (n, pkg) u s
               = andThen (npmPack p cfg w n pkg) (\<lambda>x. return u) s"
      using q by (simp add: publishAll_callback_def qualifies_def)
    have "tracked T u (snd (npmPack p cfg w n pkg s))"
      using npmPack_stable [OF stable_tracked] tr by (rule hoareD)
    then show ?thesis using res unfolding eq
      by (cases "npmPack p cfg w n pkg s")
         (auto simp: andThen_def return_def split: result.splits)
  next
    case False
    show ?thesis
    proof (cases "force_value p")
      case True
      then have "publishAll_callback p cfg w (n, pkg) u s = andThen ?go (\<lambda>u. return True) s"
        using q False by (simp add: publishAll_callback_def qualifies_def andThen_def return_def)
      then show ?thesis using go [OF tr] res by simp
    next
      case nf: False
      let ?s1 = "s\<lparr>trace := trace s @ [query p w pkg]\<rparr>"
      have t1: "tracked T u ?s1"
        using tracked_snoc [OF tr, of "query p w pkg"] by (simp add: query_def)
      show ?thesis
      proof (cases "fails w (trace s) (query p w pkg)")
        case True
        then show ?thesis using q False nf res
          by (simp add: publishAll_callback_def qualifies_def andThen_def packageExists_eq)
      next
        case ok: False
        show ?thesis
        proof (cases "version pkg \<in> set (published p w (trace s) pkg)")
          case True
          then have "publishAll_callback p cfg w (n, pkg) u s
                = (Ok u, ?s1\<lparr>trace := trace ?s1 @ [ConsoleLog (''Skip '' @ n @ ''. Not updated.'')]\<rparr>)"
            using q False nf ok
            by (simp add: publishAll_callback_def qualifies_def andThen_def packageExists_eq
                  return_def console_log_def)
          moreover have "tracked T (u \<or> is_npm_publish (ConsoleLog (''Skip '' @ n @ ''. Not updated.'')))
                  (?s1\<lparr>trace := trace ?s1 @ [ConsoleLog (''Skip '' @ n @ ''. Not updated.'')]\<rparr>)"
            using t1 by (rule tracked_snoc) simp
          ultimately show ?thesis using res by simp
        next
          case False
          then have "publishAll_callback p cfg w (n, pkg) u s
                       = andThen ?go (\<lambda>u. return True) ?s1"
            using q \<open>\<not> pack_value p\<close> nf ok
            by (simp add: publishAll_callback_def qualifies_def andThen_def packageExists_eq
                  return_def)
          then show ?thesis using go [OF t1] res by simp
        qed
      qed
    qed
  qed
qed

lemma forEach_tracked:
  assumes "\<And>n pkg. (n, pkg) \<in> set xs \<Longrightarrow> map_of (projectsByName cfg) n = Some pkg"
    and "tracked T u s"
    and "publishAll_forEach p cfg w xs u s = (Ok u', s')"
  shows "tracked T u' s'"
  using assms
proof (induction xs arbitrary: u s)
  case Nil
  then show ?case by (simp add: return_def)
next
  case (Cons x xs)
  obtain n pkg where x: "x = (n, pkg)" by (cases x)
  obtain r t where cb: "publishAll_callback p cfg w (n, pkg) u s = (r, t)"
    by (cases "publishAll_callback p cfg w (n, pkg) u s")
  from Cons.prems(3) cb obtain u1 where r: "r = Ok u1"
    and rest: "publishAll_forEach p cfg w xs u1 t = (Ok u', s')"
    by (cases r) (simp_all add: x andThen_def)
  have "map_of (projectsByName cfg) n = Some pkg" using Cons.prems(1) x by simp
  from callback_tracked [OF this Cons.prems(2)] cb r have "tracked T u1 t" by simp
  with Cons.IH rest Cons.prems(1) show ?case by simp
qed

lemma seq_one: "seq [a] s = a s"
proof (cases "a s")
  case (Pair r t)
  then show ?thesis by (cases r) simp_all
qed

lemma seq_log_call:
  "seq [console_log msg, call w g, a] s =
     (if fails w (trace s @ [ConsoleLog msg]) g
      then (Throw (ExternalFailure g), s\<lparr>trace := trace s @ [ConsoleLog msg, g]\<rparr>)
      else a (s\<lparr>trace := trace s @ [ConsoleLog msg, g]\<rparr>))"
proof -
  have "seq [console_log msg, call w g, a] s
          = seq [call w g, a] (s\<lparr>trace := trace s @ [ConsoleLog msg]\<rparr>)"
    by (simp add: console_log_def)
  also have "\<dots> = (if fails w (trace s @ [ConsoleLog msg]) g
      then (Throw (ExternalFailure g), s\<lparr>trace := trace s @ [ConsoleLog msg, g]\<rparr>)
      else seq [a] (s\<lparr>trace := trace s @ [ConsoleLog msg, g]\<rparr>))"
    by (simp add: seq_step call_def ask_def del: seq.simps(2))
  finally show ?thesis by (simp only: seq_one)
qed

lemma publishAll_eq:
  "publishAll p cfg w allPackages s =
     (let m = ConsoleLog (''Rush publish starts with includeAll and version policy ''
                            @ template (versionPolicy_value p));
          g = NewPublishGit (targetBranch_value p);
          s2 = s\<lparr>trace := trace s @ [m, g]\<rparr>
      in if fails w (trace s @ [m]) g then (Throw (ExternalFailure g), s2)
         else (case publishAll_forEach p cfg w allPackages False s2 of
                 (Ok updated, t) \<Rightarrow>
                   (if updated then call w (GitPush (targetBranch_value p)) else return ()) t
               | (Throw e, t) \<Rightarrow> (Throw e, t)))"
  unfolding publishAll_def seq_log_call Let_def andThen_def ..

lemma publishAll_pushes:
  assumes d: "distinct (map fst (projectsByName cfg))"
    and res: "publishAll p cfg w (projectsByName cfg) s = (Ok (), s')"
  shows "\<exists>evs. trace s' = trace s @ evs
           \<and> filter is_push evs
               = (if list_ex is_npm_publish evs then [GitPush (targetBranch_value p)] else [])"
proof -
  define m where "m = ConsoleLog (''Rush publish starts with includeAll and version policy ''
                                    @ template (versionPolicy_value p))"
  define g where "g = NewPublishGit (targetBranch_value p)"
  define s2 where "s2 = s\<lparr>trace := trace s @ [m, g]\<rparr>"
  have mg: "\<not> is_push m" "\<not> is_push g" "\<not> is_npm_publish m" "\<not> is_npm_publish g"
    by (simp_all add: m_def g_def)
  obtain r t where fe: "publishAll_forEach p cfg w (projectsByName cfg) False s2 = (r, t)"
    by (cases "publishAll_forEach p cfg w (projectsByName cfg) False s2")
  have eq: "publishAll p cfg w (projectsByName cfg) s =
              (if fails w (trace s @ [m]) g then (Throw (ExternalFailure g), s2)
               else (case r of
                       Ok updated \<Rightarrow>
                         (if updated then call w (GitPush (targetBranch_value p)) else return ()) t
                     | Throw e \<Rightarrow> (Throw e, t)))"
    unfolding publishAll_eq Let_def m_def [symmetric] g_def [symmetric] s2_def [symmetric] fe
    by (cases r) simp_all
  from res eq obtain u where r: "r = Ok u"
    and fin: "(if u then call w (GitPush (targetBranch_value p)) else return ()) t = (Ok (), s')"
    by (cases r) (simp_all split: if_splits)
  have "tracked (trace s2) False s2" by (simp add: tracked_def)
  moreover have "map_of (projectsByName cfg) n = Some pkg"
    if "(n, pkg) \<in> set (projectsByName cfg)" for n pkg
    using d that by simp
  ultimately have "tracked (trace s2) u t"
    using fe r forEach_tracked [of "projectsByName cfg" cfg "trace s2" False s2 p w u t] by simp
  then obtain evs where evs: "trace t = trace s2 @ evs" "\<not> list_ex is_push evs"
    "u = list_ex is_npm_publish evs" unfolding tracked_def by blast
  have nopush: "filter is_push evs = []" using evs(2) by (simp add: list_ex_iff filter_empty_conv)
  have t: "trace t = trace s @ ([m, g] @ evs)" using evs(1) by (simp add: s2_def)
  show ?thesis
  proof (cases u)
    case True
    then have "trace s' = trace t @ [GitPush (targetBranch_value p)]"
      using fin by (auto simp: call_def ask_def split: if_splits)
    then have "trace s' = trace s @ ([m, g] @ evs @ [GitPush (targetBranch_value p)])"
      using t by simp
    moreover have "filter is_push ([m, g] @ evs @ [GitPush (targetBranch_value p)])
                     = [GitPush (targetBranch_value p)]"
      using nopush mg by simp
    moreover have "list_ex is_npm_publish ([m, g] @ evs @ [GitPush (targetBranch_value p)])"
      using True evs(3) by simp
    ultimately show ?thesis
      by (intro exI [of _ "[m, g] @ evs @ [GitPush (targetBranch_value p)]"]) simp
  next
    case False
    then have "trace s' = trace t" using fin by (simp add: return_def)
    then have "trace s' = trace s @ ([m, g] @ evs)" using t by simp
    moreover have "filter is_push ([m, g] @ evs) = []" using nopush mg by simp
    moreover have "\<not> list_ex is_npm_publish ([m, g] @ evs)" using False evs(3) mg by simp
    ultimately show ?thesis by (intro exI [of _ "[m, g] @ evs"]) simp
  qed
qed



subsection \<open>"Publish all": the calls of the whole run\<close>

text \<open>
  The spec's words for "publish all" mode, as the list of calls a run is to make.  Every
  descriptor of the map is visited, in order; one that does not qualify adds nothing.  For a
  qualifying one: in pack mode the calls of \<open>pack_events\<close>; otherwise, with \<open>--force\<close> the publish
  command and the tag; otherwise the registry query, and then either the diagnostic (version
  published) or the publish command and the tag.  After the loop one push of the target
  branch if the loop holds a publish command.

  Packing a project: with the release type public or beta, first the declaration files are
  brought up to date (\<open>api_events\<close>): when the project has a config/api-extractor.json it is
  loaded, and when it enables the rollup and its trimming and both folders exist, the folder
  of the release type is read and every file of it copied into the internal folder, each
  copy with a message.  Then the pack command and, with \<open>--publish\<close>, the move of the tarball
  into the release folder.
\<close>

definition copy_events :: "world \<Rightarrow> string \<Rightarrow> string \<Rightarrow> string \<Rightarrow> event list" where
  "copy_events w fromFolder toFolder fileName =
     [FileSystemCopyFile (path_join w [fromFolder, fileName]) (path_join w [toFolder, fileName]),
      ConsoleLog (''Copied file '' @ fileName @ '' from '' @ fromFolder @ '' to '' @ toFolder)]"

definition api_events ::
  "parameters \<Rightarrow> world \<Rightarrow> event list \<Rightarrow> RushConfigurationProject \<Rightarrow> event list" where
  "api_events p w h pkg =
     (let configPath = path_join w [projectFolder pkg, ''config'', ''api-extractor.json''];
          config = jsonFile_load w h configPath;
          loaded = h @ [JsonFileLoad configPath];
          toFolder = path_join w [projectFolder pkg,
                       if truthy (publishFolderForInternal config)
                       then the (publishFolderForInternal config) else ''./dist''];
          fromFolder = path_join w [projectFolder pkg,
                         if releaseType_value p = Some ''public'' then
                           (if truthy (publishFolderForPublic config)
                            then the (publishFolderForPublic config) else ''./dist/public'')
                         else
                           (if truthy (publishFolderForBeta config)
                            then the (publishFolderForBeta config) else ''./dist/beta'')]
      in if fileSystem_exists w h configPath then
           JsonFileLoad configPath
           # (if generateDtsRollup config \<and> dtsRollupTrimming config
                 \<and> fileSystem_exists w loaded fromFolder \<and> fileSystem_exists w loaded toFolder
              then FileSystemReadFolder fromFolder
                   # concat (map (copy_events w fromFolder toFolder)
                               (fileSystem_readFolder w loaded fromFolder))
              else [])
         else [])"

definition pack_events ::
  "parameters \<Rightarrow> RushConfiguration \<Rightarrow> world \<Rightarrow> event list \<Rightarrow> RushConfigurationProject
     \<Rightarrow> event list" where
  "pack_events p cfg w h pkg =
     (if releaseType_value p \<in> {Some ''public'', Some ''beta''} then api_events p w h pkg else [])
     @ ExecCommand (publish_value p) (packageManagerToolFilename cfg) [''pack''] (projectFolder pkg)
         (getEnvArgs w)
     # (if publish_value p then
          [FileSystemMove (path_join w [projectFolder pkg, calculateTarballName pkg])
             (path_join w [if truthy (releaseFolder_value p) then the (releaseFolder_value p)
                           else path_join w [commonTempFolder cfg, ''artifacts'', ''packages''],
                           calculateTarballName pkg])
             True]
        else [])"

definition publish_and_tag ::
  "parameters \<Rightarrow> RushConfiguration \<Rightarrow> world \<Rightarrow> string \<Rightarrow> RushConfigurationProject \<Rightarrow> event list"
  where
  "publish_and_tag p cfg w n pkg =
     [publishCommand p cfg w None (projectFolder pkg),
      GitAddTag (publish_value p \<and> \<not> truthy (registryUrl_value p)) n (Some (version pkg))]"

definition descriptor_events ::
  "parameters \<Rightarrow> RushConfiguration \<Rightarrow> world \<Rightarrow> event list
     \<Rightarrow> string \<times> RushConfigurationProject \<Rightarrow> event list" where
  "descriptor_events p cfg w h entry =
     (if qualifies p (snd entry) then
        if pack_value p then pack_events p cfg w h (snd entry)
        else if force_value p then publish_and_tag p cfg w (fst entry) (snd entry)
        else if version (snd entry) \<in> set (published p w h (snd entry)) then
          [query p w (snd entry), ConsoleLog (''Skip '' @ fst entry @ ''. Not updated.'')]
        else query p w (snd entry) # publish_and_tag p cfg w (fst entry) (snd entry)
      else [])"

fun descriptors_events ::
  "parameters \<Rightarrow> RushConfiguration \<Rightarrow> world \<Rightarrow> event list
     \<Rightarrow> (string \<times> RushConfigurationProject) list \<Rightarrow> event list" where
  "descriptors_events p cfg w h [] = []"
| "descriptors_events p cfg w h (entry # rest) =
     descriptor_events p cfg w h entry
     @ descriptors_events p cfg w (h @ descriptor_events p cfg w h entry) rest"

definition publish_all_calls :: "parameters \<Rightarrow> RushConfiguration \<Rightarrow> world \<Rightarrow> event list" where
  "publish_all_calls p cfg w =
     (let start = [ValidatePolicy,
                   ConsoleLog (''Rush publish starts with includeAll and version policy ''
                                 @ template (versionPolicy_value p)),
                   NewPublishGit (targetBranch_value p)];
          loop = descriptors_events p cfg w start (projectsByName cfg)
      in start @ loop
         @ (if list_ex is_npm_publish loop then [GitPush (targetBranch_value p)] else [])
         @ [ConsoleLog (os_EOL w @ colors_green w ''Rush publish finished successfully.'')])"

text \<open>Example input: a world where every project has a config/api-extractor.json that enables
  the trimmed rollup, every folder exists and holds the file index.d.ts.\<close>

definition packing :: world where
  "packing =
     quiet\<lparr>fileSystem_exists := (\<lambda>h f. True),
           jsonFile_load := (\<lambda>h f. \<lparr>generateDtsRollup = True, dtsRollupTrimming = True,
                                    publishFolderForInternal = None,
                                    publishFolderForPublic = None,
                                    publishFolderForBeta = None\<rparr>),
           fileSystem_readFolder := (\<lambda>h f. [''index.d.ts'']),
           path_join := (\<lambda>parts. foldr (\<lambda>a b. if b = [] then a else a @ ''/'' @ b) parts [])\<rparr>"

text \<open>A publish command the command runner is told to execute.\<close>

fun is_executed_publish :: "event \<Rightarrow> bool" where
  "is_executed_publish (ExecCommand b tool args path env) = (b \<and> args \<noteq> [] \<and> hd args = ''publish'')"
| "is_executed_publish e = False"

lemma performs_copyApiFile:
  "performs w (copyApiFile w fromFolder toFolder fileName) s
     (copy_events w fromFolder toFolder fileName) ()"
proof -
  let ?copy = "FileSystemCopyFile (path_join w [fromFolder, fileName])
                 (path_join w [toFolder, fileName])"
  let ?m = "''Copied file '' @ fileName @ '' from '' @ fromFolder @ '' to '' @ toFolder"
  have c: "performs w (call w ?copy) s [?copy] ()"
    by (rule performs_call) simp
  have "performs w (seq [console_log ?m]) (s\<lparr>trace := trace s @ [?copy]\<rparr>)
          ([ConsoleLog ?m] @ []) ()"
    using performs_console_log performs_seq_Nil by (rule performs_seq_Cons)
  with c have "performs w (seq [call w ?copy, console_log ?m]) s
                 ([?copy] @ [ConsoleLog ?m] @ []) ()"
    by (rule performs_seq_Cons)
  then show ?thesis by (simp add: copyApiFile_def copy_events_def del: seq.simps)
qed

lemma performs_copy_all:
  "performs w (seq (map (copyApiFile w fromFolder toFolder) fileNames)) s
     (concat (map (copy_events w fromFolder toFolder) fileNames)) ()"
proof (induction fileNames arbitrary: s)
  case Nil
  show ?case by (simp add: performs_seq_Nil del: seq.simps)
next
  case (Cons f fs)
  from performs_seq_Cons [OF performs_copyApiFile Cons.IH]
  show ?case by (simp del: seq.simps)
qed

lemma truthy_the: "truthy x \<Longrightarrow> (the x = []) = False"
  by (cases x) auto

lemma performs_updateAPIFile:
  assumes rt: "releaseType_value p \<in> {Some ''public'', Some ''beta''}"
  shows "performs w (updateAPIFile p w n pkg) s (api_events p w (trace s) pkg) ()"
proof -
  define configPath where
    "configPath = path_join w [projectFolder pkg, ''config'', ''api-extractor.json'']"
  define config where "config = jsonFile_load w (trace s) configPath"
  define s1 where "s1 = s\<lparr>trace := trace s @ [JsonFileLoad configPath]\<rparr>"
  define toFolder where
    "toFolder = path_join w [projectFolder pkg,
                       if truthy (publishFolderForInternal config)
                       then the (publishFolderForInternal config) else ''./dist'']"
  define fromFolder where
    "fromFolder = path_join w [projectFolder pkg,
                         if releaseType_value p = Some ''public'' then
                           (if truthy (publishFolderForPublic config)
                            then the (publishFolderForPublic config) else ''./dist/public'')
                         else
                           (if truthy (publishFolderForBeta config)
                            then the (publishFolderForBeta config) else ''./dist/beta'')]"
  define sync where
    "sync = (generateDtsRollup config \<and> dtsRollupTrimming config
             \<and> fileSystem_exists w (trace s1) fromFolder \<and> fileSystem_exists w (trace s1) toFolder)"
  define after where
    "after = (\<lambda>apiConfig :: apiConfig.
                if generateDtsRollup apiConfig \<and> dtsRollupTrimming apiConfig then
                  (let toApiFolder = (if truthy (publishFolderForInternal apiConfig)
                                      then the (publishFolderForInternal apiConfig) else ''./dist'');
                       fromApiFolder =
                         (if releaseType_value p = Some ''public'' then
                            Some (if truthy (publishFolderForPublic apiConfig)
                                  then the (publishFolderForPublic apiConfig) else ''./dist/public'')
                          else if releaseType_value p = Some ''beta'' then
                            Some (if truthy (publishFolderForBeta apiConfig)
                                  then the (publishFolderForBeta apiConfig) else ''./dist/beta'')
                          else None)
                   in if truthy fromApiFolder then
                        (let fromApiFolderPath = path_join w [projectFolder pkg, the fromApiFolder];
                             toApiFolderPath = path_join w [projectFolder pkg, toApiFolder]
                         in (\<lambda>s'. if fileSystem_exists w (trace s') fromApiFolderPath
                                      \<and> fileSystem_exists w (trace s') toApiFolderPath then
                                     andThen
                                       (ask w (FileSystemReadFolder fromApiFolderPath)
                                          (\<lambda>h. fileSystem_readFolder w h fromApiFolderPath))
                                       (\<lambda>fileNames.
                                          seq (map (copyApiFile w fromApiFolderPath toApiFolderPath)
                                                 fileNames)) s'
                                   else return () s'))
                      else return ())
                else return ())"
  have upd: "updateAPIFile p w n pkg s =
               (if fileSystem_exists w (trace s) configPath then
                  andThen (ask w (JsonFileLoad configPath) (\<lambda>h. jsonFile_load w h configPath))
                    after s
                else return () s)"
    by (simp add: updateAPIFile_def after_def configPath_def Let_def)
  have copy: "performs w
                (andThen (ask w (FileSystemReadFolder fromFolder)
                            (\<lambda>h. fileSystem_readFolder w h fromFolder))
                   (\<lambda>fileNames. seq (map (copyApiFile w fromFolder toFolder) fileNames)))
                s1
                ([FileSystemReadFolder fromFolder]
                 @ concat (map (copy_events w fromFolder toFolder)
                             (fileSystem_readFolder w (trace s1) fromFolder))) ()"
  proof -
    have "performs w (ask w (FileSystemReadFolder fromFolder)
                        (\<lambda>h. fileSystem_readFolder w h fromFolder)) s1
            [FileSystemReadFolder fromFolder] (fileSystem_readFolder w (trace s1) fromFolder)"
      by (rule performs_ask) simp
    from performs_andThen
           [where f = "\<lambda>fileNames. seq (map (copyApiFile w fromFolder toFolder) fileNames)",
            OF this performs_copy_all]
    show ?thesis .
  qed
  have a: "performs w (after config) s1
             (if sync then FileSystemReadFolder fromFolder
                           # concat (map (copy_events w fromFolder toFolder)
                                       (fileSystem_readFolder w (trace s1) fromFolder))
              else []) ()"
  proof (cases sync)
    case True
    then have "after config s1
                 = andThen (ask w (FileSystemReadFolder fromFolder)
                              (\<lambda>h. fileSystem_readFolder w h fromFolder))
                     (\<lambda>fileNames. seq (map (copyApiFile w fromFolder toFolder) fileNames)) s1"
      using rt
      by (auto simp: after_def sync_def fromFolder_def toFolder_def Let_def truthy_the)
    then show ?thesis using copy True by (simp add: performs_def)
  next
    case False
    then have "after config s1 = return () s1"
      using rt
      by (auto simp: after_def sync_def fromFolder_def toFolder_def Let_def truthy_the)
    then show ?thesis using False performs_return [of w "()" s1] by (simp add: performs_def)
  qed
  have ev: "api_events p w (trace s) pkg =
              (if fileSystem_exists w (trace s) configPath then
                 [JsonFileLoad configPath]
                 @ (if sync then FileSystemReadFolder fromFolder
                                 # concat (map (copy_events w fromFolder toFolder)
                                             (fileSystem_readFolder w (trace s1) fromFolder))
                    else [])
               else [])"
    unfolding api_events_def Let_def sync_def s1_def fromFolder_def toFolder_def config_def
      configPath_def
    by simp
  show ?thesis
  proof (cases "fileSystem_exists w (trace s) configPath")
    case False
    then show ?thesis
      using performs_return [of w "()" s]
      by (simp add: performs_def upd ev)
  next
    case True
    have "performs w (ask w (JsonFileLoad configPath) (\<lambda>h. jsonFile_load w h configPath)) s
            [JsonFileLoad configPath] config"
      unfolding config_def by (rule performs_ask) simp
    from performs_andThen [OF this, of after] a
    have "performs w (andThen (ask w (JsonFileLoad configPath)
                                 (\<lambda>h. jsonFile_load w h configPath)) after) s
            ([JsonFileLoad configPath]
             @ (if sync then FileSystemReadFolder fromFolder
                             # concat (map (copy_events w fromFolder toFolder)
                                         (fileSystem_readFolder w (trace s1) fromFolder))
                else [])) ()"
      by (simp add: s1_def)
    then have "performs w (updateAPIFile p w n pkg) s
            ([JsonFileLoad configPath]
             @ (if sync then FileSystemReadFolder fromFolder
                             # concat (map (copy_events w fromFolder toFolder)
                                         (fileSystem_readFolder w (trace s1) fromFolder))
                else [])) ()"
      using True by (simp add: performs_def upd)
    then show ?thesis
      unfolding ev using True by simp
  qed
qed

lemma performs_npmPack:
  assumes "\<not> invalid_releaseType p"
  shows "performs w (npmPack p cfg w n pkg) s (pack_events p cfg w (trace s) pkg) ()"
proof -
  let ?pack = "ExecCommand (publish_value p) (packageManagerToolFilename cfg) [''pack'']
                 (projectFolder pkg) (getEnvArgs w)"
  let ?move = "FileSystemMove (path_join w [projectFolder pkg, calculateTarballName pkg])
             (path_join w [if truthy (releaseFolder_value p) then the (releaseFolder_value p)
                           else path_join w [commonTempFolder cfg, ''artifacts'', ''packages''],
                           calculateTarballName pkg])
             True"
  let ?last = "if publish_value p then call w ?move else return ()"
  let ?api = "releaseType_value p \<in> {Some ''public'', Some ''beta''}"
  let ?first = "if ?api then updateAPIFile p w n pkg else return ()"
  let ?evs = "if ?api then api_events p w (trace s) pkg else []"
  have eq: "npmPack p cfg w n pkg = seq [?first, call w ?pack, ?last]"
    using assms by (auto simp: npmPack_def invalid_releaseType_def Let_def)
  have first: "performs w ?first s ?evs ()"
    by (simp add: performs_updateAPIFile performs_return)
  have last: "performs w ?last t (if publish_value p then [?move] else []) ()" for t
    by (simp add: performs_call performs_return)
  have "performs w (seq [call w ?pack, ?last]) (s\<lparr>trace := trace s @ ?evs\<rparr>)
          ([?pack] @ (if publish_value p then [?move] else []) @ []) ()"
    by (intro performs_seq_Cons performs_seq_Nil performs_call last) simp
  with first have "performs w (seq [?first, call w ?pack, ?last]) s
          (?evs @ [?pack] @ (if publish_value p then [?move] else []) @ []) ()"
    by (rule performs_seq_Cons)
  then show ?thesis unfolding eq by (simp add: pack_events_def)
qed

lemma api_events_no_publish: "\<not> list_ex is_npm_publish (api_events p w h pkg)"
proof -
  have "\<not> list_ex is_npm_publish (concat (map (copy_events w a b) fs))" for a b fs
    by (induction fs) (simp_all add: copy_events_def)
  then show ?thesis by (simp add: api_events_def Let_def)
qed

lemma pack_events_no_publish [simp]: "\<not> list_ex is_npm_publish (pack_events p cfg w h pkg)"
  by (simp add: pack_events_def api_events_no_publish)

lemma publish_and_tag_publishes [simp]: "list_ex is_npm_publish (publish_and_tag p cfg w n pkg)"
  by (simp add: publish_and_tag_def)

lemma performs_publish_and_tag:
  assumes "map_of (projectsByName cfg) n = Some pkg" and "shouldPublish pkg"
    and "hotfixTagOverride s = None"
  shows "performs w
           (andThen (seq [npmPublish p cfg w n (projectFolder pkg),
                          call w (GitAddTag (publish_value p \<and> \<not> truthy (registryUrl_value p))
                                    n (Some (version pkg)))])
              (\<lambda>u. return True))
           s (publish_and_tag p cfg w n pkg) True"
proof -
  let ?tag = "GitAddTag (publish_value p \<and> \<not> truthy (registryUrl_value p)) n (Some (version pkg))"
  let ?cmd = "publishCommand p cfg w None (projectFolder pkg)"
  have "performs w (npmPublish p cfg w n (projectFolder pkg)) s [?cmd] ()"
    using performs_npmPublish [OF assms(1,2), of w p "projectFolder pkg" s] assms(3) by simp
  then have "performs w (seq [npmPublish p cfg w n (projectFolder pkg), call w ?tag]) s
          ([?cmd] @ [?tag] @ []) ()"
    by (intro performs_seq_Cons performs_seq_Nil performs_call) simp_all
  then have "performs w (andThen (seq [npmPublish p cfg w n (projectFolder pkg), call w ?tag])
                           (\<lambda>u. return True)) s
          (([?cmd] @ [?tag] @ []) @ []) True"
    by (rule performs_andThen) (rule performs_return)
  then show ?thesis by (simp add: publish_and_tag_def)
qed

lemma callback_performs:
  assumes look: "map_of (projectsByName cfg) n = Some pkg"
    and hot: "hotfixTagOverride s = None"
    and pp: "\<not> invalid_releaseType p"
  shows "performs w (publishAll_callback p cfg w (n, pkg) u) s
           (descriptor_events p cfg w (trace s) (n, pkg))
           (u \<or> list_ex is_npm_publish (descriptor_events p cfg w (trace s) (n, pkg)))"
proof (cases "qualifies p pkg")
  case False
  then have "publishAll_callback p cfg w (n, pkg) u = return u"
    by (auto simp: publishAll_callback_def qualifies_def)
  then show ?thesis using False by (simp add: descriptor_events_def performs_return)
next
  case q: True
  then have sp: "shouldPublish pkg" by (simp add: qualifies_def)
  let ?go = "andThen (seq [npmPublish p cfg w n (projectFolder pkg),
                          call w (GitAddTag (publish_value p \<and> \<not> truthy (registryUrl_value p))
                                    n (Some (version pkg)))])
              (\<lambda>u. return True)"
  let ?skip = "andThen (console_log (''Skip '' @ n @ ''. Not updated.'')) (\<lambda>x. return u)"
  show ?thesis
  proof (cases "pack_value p")
    case True
    then have eq: "publishAll_callback p cfg w (n, pkg) u
                     = andThen (npmPack p cfg w n pkg) (\<lambda>x. return u)"
      using q by (simp add: publishAll_callback_def qualifies_def)
    have "performs w (andThen (npmPack p cfg w n pkg) (\<lambda>x. return u)) s
            (pack_events p cfg w (trace s) pkg @ []) u"
      by (rule performs_andThen [OF performs_npmPack [OF pp] performs_return])
    then show ?thesis unfolding eq using q True by (simp add: descriptor_events_def)
  next
    case np: False
    show ?thesis
    proof (cases "force_value p")
      case True
      then have eq: "publishAll_callback p cfg w (n, pkg) u = ?go"
        using q np by (simp add: publishAll_callback_def qualifies_def andThen_return)
      show ?thesis
        unfolding eq
        using performs_publish_and_tag [OF look sp hot, of w p] q np True
        by (simp add: descriptor_events_def)
    next
      case nf: False
      let ?decide = "andThen (packageExists p w pkg) (\<lambda>e. return (\<not> e))"
      let ?exists = "version pkg \<in> set (published p w (trace s) pkg)"
      let ?s1 = "s\<lparr>trace := trace s @ [query p w pkg] @ []\<rparr>"
      have eq: "publishAll_callback p cfg w (n, pkg) u
                  = andThen ?decide (\<lambda>d. if d then ?go else ?skip)"
        using q np nf by (simp add: publishAll_callback_def qualifies_def)
      have d: "performs w ?decide s ([query p w pkg] @ []) (\<not> ?exists)"
        by (rule performs_andThen [OF performs_packageExists performs_return])
      show ?thesis
      proof (cases ?exists)
        case True
        have "performs w ?skip ?s1 ([ConsoleLog (''Skip '' @ n @ ''. Not updated.'')] @ []) u"
          by (rule performs_andThen [OF performs_console_log performs_return])
        then have "performs w (if \<not> ?exists then ?go else ?skip) ?s1
                     ([ConsoleLog (''Skip '' @ n @ ''. Not updated.'')] @ []) u"
          using True by simp
        from performs_andThen [OF d, of "\<lambda>d. if d then ?go else ?skip", OF this]
        show ?thesis unfolding eq using q np nf True by (simp add: descriptor_events_def query_def)
      next
        case False
        have "performs w ?go ?s1 (publish_and_tag p cfg w n pkg) True"
          by (rule performs_publish_and_tag [OF look sp]) (simp add: hot)
        then have "performs w (if \<not> ?exists then ?go else ?skip) ?s1
                     (publish_and_tag p cfg w n pkg) True"
          using False by simp
        from performs_andThen [OF d, of "\<lambda>d. if d then ?go else ?skip", OF this]
        show ?thesis unfolding eq using q np nf False by (simp add: descriptor_events_def query_def)
      qed
    qed
  qed
qed

lemma forEach_performs:
  assumes look: "\<And>n pkg. (n, pkg) \<in> set xs \<Longrightarrow> map_of (projectsByName cfg) n = Some pkg"
    and hot: "hotfixTagOverride s = None"
    and pp: "\<not> invalid_releaseType p"
  shows "performs w (publishAll_forEach p cfg w xs u) s
           (descriptors_events p cfg w (trace s) xs)
           (u \<or> list_ex is_npm_publish (descriptors_events p cfg w (trace s) xs))"
  using look hot
proof (induction xs arbitrary: u s)
  case Nil
  show ?case by (simp add: performs_return)
next
  case (Cons x xs)
  obtain n pkg where x: "x = (n, pkg)" by (cases x)
  let ?evs = "descriptor_events p cfg w (trace s) (n, pkg)"
  let ?s1 = "s\<lparr>trace := trace s @ ?evs\<rparr>"
  have "map_of (projectsByName cfg) n = Some pkg" using Cons.prems(1) x by simp
  then have cb: "performs w (publishAll_callback p cfg w (n, pkg) u) s ?evs
                   (u \<or> list_ex is_npm_publish ?evs)"
    using Cons.prems(2) pp by (rule callback_performs)
  have "performs w (publishAll_forEach p cfg w xs (u \<or> list_ex is_npm_publish ?evs)) ?s1
          (descriptors_events p cfg w (trace ?s1) xs)
          ((u \<or> list_ex is_npm_publish ?evs)
           \<or> list_ex is_npm_publish (descriptors_events p cfg w (trace ?s1) xs))"
    using Cons.prems by (intro Cons.IH) simp_all
  from performs_andThen [OF cb, of "publishAll_forEach p cfg w xs", OF this]
  show ?case by (simp add: x disj_assoc)
qed
lemma publishAll_performs:
  assumes d: "distinct (map fst (projectsByName cfg))"
    and hot: "hotfixTagOverride s = None"
    and pp: "\<not> invalid_releaseType p"
  shows "performs w (publishAll p cfg w (projectsByName cfg)) s
           ([ConsoleLog (''Rush publish starts with includeAll and version policy ''
                          @ template (versionPolicy_value p))]
            @ [NewPublishGit (targetBranch_value p)]
            @ (descriptors_events p cfg w
                 (trace s @ [ConsoleLog (''Rush publish starts with includeAll and version policy ''
                                          @ template (versionPolicy_value p))]
                         @ [NewPublishGit (targetBranch_value p)])
                 (projectsByName cfg)
               @ (if list_ex is_npm_publish
                       (descriptors_events p cfg w
                          (trace s @ [ConsoleLog (''Rush publish starts with includeAll and version policy ''
                                          @ template (versionPolicy_value p))]
                                   @ [NewPublishGit (targetBranch_value p)])
                          (projectsByName cfg))
                  then [GitPush (targetBranch_value p)] else []))
            @ [])
           ()"
proof -
  define m where "m = ConsoleLog (''Rush publish starts with includeAll and version policy ''
                                    @ template (versionPolicy_value p))"
  define g where "g = NewPublishGit (targetBranch_value p)"
  define s1 where "s1 = s\<lparr>trace := trace s @ [m]\<rparr>"
  define s2 where "s2 = s1\<lparr>trace := trace s1 @ [g]\<rparr>"
  define loop where "loop = descriptors_events p cfg w (trace s2) (projectsByName cfg)"
  define push where "push = (\<lambda>updated. if updated then call w (GitPush (targetBranch_value p))
                                         else return ())"
  have look: "map_of (projectsByName cfg) n = Some pkg"
    if "(n, pkg) \<in> set (projectsByName cfg)" for n pkg
    using d that by simp
  have h2: "hotfixTagOverride s2 = None" by (simp add: s2_def s1_def hot)
  have fe: "performs w (publishAll_forEach p cfg w (projectsByName cfg) False) s2 loop
              (False \<or> list_ex is_npm_publish loop)"
    unfolding loop_def using look h2 pp by (rule forEach_performs)
  have after: "performs w (push (False \<or> list_ex is_npm_publish loop))
                 (s2\<lparr>trace := trace s2 @ loop\<rparr>)
                 (if list_ex is_npm_publish loop then [GitPush (targetBranch_value p)] else []) ()"
    by (simp add: push_def performs_call performs_return)
  have body: "performs w (andThen (publishAll_forEach p cfg w (projectsByName cfg) False) push) s2
                (loop @ (if list_ex is_npm_publish loop then [GitPush (targetBranch_value p)]
                         else [])) ()"
    using fe after by (rule performs_andThen)
  have "performs w (seq [andThen (publishAll_forEach p cfg w (projectsByName cfg) False) push]) s2
          ((loop @ (if list_ex is_npm_publish loop then [GitPush (targetBranch_value p)]
                    else [])) @ []) ()"
    using body performs_seq_Nil by (rule performs_seq_Cons)
  then have "performs w (seq [andThen (publishAll_forEach p cfg w (projectsByName cfg) False) push])
               (s1\<lparr>trace := trace s1 @ [g]\<rparr>)
          ((loop @ (if list_ex is_npm_publish loop then [GitPush (targetBranch_value p)]
                    else [])) @ []) ()"
    by (simp add: s2_def)
  moreover have "performs w (call w g) s1 [g] ()"
    by (rule performs_call) (simp add: g_def)
  ultimately have "performs w (seq [call w g,
                         andThen (publishAll_forEach p cfg w (projectsByName cfg) False) push]) s1
          ([g] @ (loop @ (if list_ex is_npm_publish loop then [GitPush (targetBranch_value p)]
                    else [])) @ []) ()"
    by (rule performs_seq_Cons [rotated])
  then have "performs w (seq [call w g,
                         andThen (publishAll_forEach p cfg w (projectsByName cfg) False) push])
               (s\<lparr>trace := trace s @ [m]\<rparr>)
          ([g] @ (loop @ (if list_ex is_npm_publish loop then [GitPush (targetBranch_value p)]
                    else [])) @ []) ()"
    by (simp add: s1_def)
  moreover have "performs w (console_log (''Rush publish starts with includeAll and version policy ''
                                    @ template (versionPolicy_value p))) s [m] ()"
    unfolding m_def by (rule performs_console_log)
  ultimately have "performs w (seq [console_log (''Rush publish starts with includeAll and version policy ''
                                    @ template (versionPolicy_value p)),
                         call w g,
                         andThen (publishAll_forEach p cfg w (projectsByName cfg) False) push]) s
          ([m] @ [g] @ (loop @ (if list_ex is_npm_publish loop then [GitPush (targetBranch_value p)]
                    else [])) @ []) ()"
    by (rule performs_seq_Cons [rotated])
  then show ?thesis
    unfolding publishAll_def push_def loop_def s2_def s1_def m_def g_def by simp
qed

lemma run_all_performs:
  assumes "\<not> regenerateChangelogs_value p" and "includeAll_value p"
    and "\<not> invalid_combination p"
    and d: "distinct (map fst (projectsByName cfg))"
    and pp: "\<not> invalid_releaseType p"
  shows "performs w (run p cfg w) initial (publish_all_calls p cfg w) ()"
proof -
  define fin where "fin = os_EOL w @ colors_green w ''Rush publish finished successfully.''"
  define s1 where "s1 = initial\<lparr>trace := trace initial @ [ValidatePolicy]\<rparr>"
  define evs where "evs = [ConsoleLog (''Rush publish starts with includeAll and version policy ''
                          @ template (versionPolicy_value p))]
            @ [NewPublishGit (targetBranch_value p)]
            @ (descriptors_events p cfg w
                 (trace s1 @ [ConsoleLog (''Rush publish starts with includeAll and version policy ''
                                          @ template (versionPolicy_value p))]
                         @ [NewPublishGit (targetBranch_value p)])
                 (projectsByName cfg)
               @ (if list_ex is_npm_publish
                       (descriptors_events p cfg w
                          (trace s1 @ [ConsoleLog (''Rush publish starts with includeAll and version policy ''
                                          @ template (versionPolicy_value p))]
                                   @ [NewPublishGit (targetBranch_value p)])
                          (projectsByName cfg))
                  then [GitPush (targetBranch_value p)] else []))
            @ []"
  have v: "performs w (validate p) t [] ()" for t
    using validate_valid [OF assms(3), of t] by (simp add: performs_def)
  have "hotfixTagOverride s1 = None" by (simp add: s1_def initial_def)
  with d have all: "performs w (publishAll p cfg w (projectsByName cfg)) s1 evs ()"
    unfolding evs_def using pp by (rule publishAll_performs)
  have "performs w (seq [console_log fin]) (s1\<lparr>trace := trace s1 @ evs\<rparr>) ([ConsoleLog fin] @ []) ()"
    using performs_console_log performs_seq_Nil by (rule performs_seq_Cons)
  with all have "performs w (seq [publishAll p cfg w (projectsByName cfg), console_log fin]) s1
                   (evs @ [ConsoleLog fin] @ []) ()"
    by (rule performs_seq_Cons)
  then have "performs w (seq [publishAll p cfg w (projectsByName cfg), console_log fin])
               (s1\<lparr>trace := trace s1 @ []\<rparr>) (evs @ [ConsoleLog fin] @ []) ()"
    by simp
  with v have "performs w (seq [validate p, publishAll p cfg w (projectsByName cfg),
                                console_log fin]) s1
                 ([] @ evs @ [ConsoleLog fin] @ []) ()"
    by (rule performs_seq_Cons)
  then have main: "performs w (seq [seq [validate p, publishAll p cfg w (projectsByName cfg),
                                console_log fin]])
                 (initial\<lparr>trace := trace initial @ [ValidatePolicy]\<rparr>)
                 (([] @ evs @ [ConsoleLog fin] @ []) @ []) ()"
    unfolding s1_def using performs_seq_Nil by (rule performs_seq_Cons)
  have "performs w (seq [call w ValidatePolicy,
                         seq [validate p, publishAll p cfg w (projectsByName cfg),
                              console_log fin]]) initial
          ([ValidatePolicy] @ ([] @ evs @ [ConsoleLog fin] @ []) @ []) ()"
    using performs_call main by (rule performs_seq_Cons) simp
  then show ?thesis
    using assms(1,2)
    by (simp add: run_def Let_def publish_all_calls_def evs_def s1_def fin_def initial_def)
qed

lemma run_publish_flag:
  "trace_ok (\<lambda>pre e. is_npm_publish e \<longrightarrow> is_executed_publish e = publish_value p)
     (trace (snd (run p cfg w initial)))"
proof -
  let ?Q = "\<lambda>(pre :: event list) e. is_npm_publish e \<longrightarrow> is_executed_publish e = publish_value p"
  let ?I = "inv ?Q"
  have st: "stable_on plain ?I"
    by (rule stable_on_inv) (simp add: plain_def)
  note sta = stable_on_plain_aux [OF st]
  have pub: "?I s \<Longrightarrow>
      ?I (s\<lparr>trace := trace s @ [publishCommand p cfg w (hotfixTagOverride s) path]\<rparr>)" for s path
    by (simp add: trace_ok_snoc publishCommand_def publishArgs_def)
  have tag: "?I s \<Longrightarrow>
      ?I (s\<lparr>trace := trace s @ [GitAddTag (publish_value p \<and> \<not> truthy (registryUrl_value p)) n v]\<rparr>)"
    for s n v
    by (simp add: trace_ok_snoc)
  have tags: "hoare ?I (gitAddTag_change p cfg w change) ?I" for change
    by (rule gitAddTag_change_hoare) (simp_all add: trace_ok_snoc)
  have "hoare ?I (run p cfg w) ?I"
    by (intro run_stable [OF st] publishAll_stable [OF st] publishChanges_stable [OF st]
          publishAll_callback_stable [OF sta] publishChange_stable [OF sta] tags
          hoare_overrideTag_trace pub tag)
  moreover have "?I initial" by (simp add: initial_def trace_ok_Nil)
  ultimately show ?thesis by (rule hoareD)
qed

lemma run_executes_with_publish:
  "list_ex is_executed_publish (trace (snd (run p cfg w initial)))
     = (publish_value p \<and> list_ex is_npm_publish (trace (snd (run p cfg w initial))))"
proof -
  have ex: "is_executed_publish e \<Longrightarrow> is_npm_publish e" for e by (cases e) simp_all
  have "is_executed_publish e = (publish_value p \<and> is_npm_publish e)"
    if "e \<in> set (trace (snd (run p cfg w initial)))" for e
    using trace_ok_memD [OF run_publish_flag that] ex [of e] by auto
  then show ?thesis by (auto simp: list_ex_iff)
qed

text \<open>
  C7, as the spec states it: the target branch is pushed if and only if at least one package
  was actually published.  A dry run (\<open>--include-all\<close> without \<open>--publish\<close>) hands the publish
  command to the command runner with the order not to execute it, so no package is published;
  the run pushes the target branch all the same.
\<close>

theorem publish_all_dry_run_counterexample:
  "\<not> publish_value (flags\<lparr>includeAll_value := True, publish_value := False\<rparr>)
   \<and> run (flags\<lparr>includeAll_value := True, publish_value := False\<rparr>) repo quiet initial
       = (Ok (), \<lparr>trace =
            [ValidatePolicy,
             ConsoleLog ''Rush publish starts with includeAll and version policy undefined'',
             NewPublishGit (Some ''master''), NpmPublishedVersions ''a'' ''/repo/a'' [],
             ExecCommand False ''/tools/npm'' [''publish''] ''/repo/a'' [],
             GitAddTag False ''a'' (Some ''1.0.0''), GitPush (Some ''master''),
             ConsoleLog (CHR 0x0A # ''Rush publish finished successfully.'')],
            hotfixTagOverride = None\<rparr>)
   \<and> \<not> list_ex is_executed_publish
         (trace (snd (run (flags\<lparr>includeAll_value := True, publish_value := False\<rparr>) repo quiet
                        initial)))
   \<and> filter is_push
         (trace (snd (run (flags\<lparr>includeAll_value := True, publish_value := False\<rparr>) repo quiet
                        initial)))
       = [GitPush (Some ''master'')]"
  by (simp add: run_defs example_defs)

text \<open>
  C7, amended.  In "publish all" mode, with valid parameters and over a map (distinct keys):
  the run makes the calls of \<open>publish_all_calls\<close>, in that order, up to the first call that
  fails, and returns normally when none fails.  That list visits every descriptor of the map
  and holds calls for exactly those that qualify (\<open>shouldPublish\<close> true, and no version policy
  given or the given one is the descriptor's), and it ends with one push of the target branch
  if it holds a publish command and with none otherwise.  For all parameters: the callback of
  the loop leaves state and flag as they are exactly for a descriptor that does not qualify;
  when \<open>_publishAll\<close> returns, its pushes are one push of the target branch if it has handed a
  publish command to the command runner, and none otherwise.  The command runner is told to
  execute a publish command exactly when \<open>--publish\<close> is set: with it, a command handed over is a
  package published; without it nothing is published, and the push happens all the same.
\<close>

theorem publish_all_qualifies_and_pushes_once:
  "(\<not> regenerateChangelogs_value p \<and> includeAll_value p \<and> \<not> invalid_combination p
      \<and> \<not> invalid_releaseType p
      \<and> distinct (map fst (projectsByName cfg)) \<longrightarrow>
      snd (run p cfg w initial)
        = \<lparr>trace = until_failure w [] (publish_all_calls p cfg w), hotfixTagOverride = None\<rparr>
      \<and> (fst (run p cfg w initial) = Ok ()) = through w [] (publish_all_calls p cfg w))
   \<and> ((publishAll_callback p cfg w (n, pkg) updated s = (Ok updated, s)) = (\<not> qualifies p pkg))
   \<and> (distinct (map fst (projectsByName cfg))
        \<and> publishAll p cfg w (projectsByName cfg) s = (Ok (), s') \<longrightarrow>
      (\<exists>evs. trace s' = trace s @ evs
         \<and> filter is_push evs
             = (if list_ex is_npm_publish evs then [GitPush (targetBranch_value p)] else [])))
   \<and> list_ex is_executed_publish (trace (snd (run p cfg w initial)))
       = (publish_value p \<and> list_ex is_npm_publish (trace (snd (run p cfg w initial))))"
proof (intro conjI impI)
  assume a: "\<not> regenerateChangelogs_value p \<and> includeAll_value p \<and> \<not> invalid_combination p
      \<and> \<not> invalid_releaseType p
      \<and> distinct (map fst (projectsByName cfg))"
  then have r: "performs w (run p cfg w) initial (publish_all_calls p cfg w) ()"
    by (intro run_all_performs) simp_all
  from r show "snd (run p cfg w initial)
        = \<lparr>trace = until_failure w [] (publish_all_calls p cfg w), hotfixTagOverride = None\<rparr>"
    by (simp add: performs_def initial_def)
  from r show "(fst (run p cfg w initial) = Ok ()) = through w [] (publish_all_calls p cfg w)"
    by (auto simp: performs_def initial_def split: if_splits)
next
  show "(publishAll_callback p cfg w (n, pkg) updated s = (Ok updated, s)) = (\<not> qualifies p pkg)"
    by (rule callback_processes)
next
  assume "distinct (map fst (projectsByName cfg))
        \<and> publishAll p cfg w (projectsByName cfg) s = (Ok (), s')"
  then show "\<exists>evs. trace s' = trace s @ evs
         \<and> filter is_push evs
             = (if list_ex is_npm_publish evs then [GitPush (targetBranch_value p)] else [])"
    using publishAll_pushes by blast
next
  show "list_ex is_executed_publish (trace (snd (run p cfg w initial)))
       = (publish_value p \<and> list_ex is_npm_publish (trace (snd (run p cfg w initial))))"
    by (rule run_executes_with_publish)
qed

theorem publish_all_qualifies_and_pushes_once_witness:
  "\<not> regenerateChangelogs_value (flags\<lparr>includeAll_value := True\<rparr>)
   \<and> includeAll_value (flags\<lparr>includeAll_value := True\<rparr>)
   \<and> \<not> invalid_combination (flags\<lparr>includeAll_value := True\<rparr>)
   \<and> \<not> invalid_releaseType (flags\<lparr>includeAll_value := True\<rparr>)
   \<and> distinct (map fst (projectsByName repo))
   \<and> publish_all_calls (flags\<lparr>includeAll_value := True\<rparr>) repo quiet
       = [ValidatePolicy,
          ConsoleLog ''Rush publish starts with includeAll and version policy undefined'',
          NewPublishGit (Some ''master''), NpmPublishedVersions ''a'' ''/repo/a'' [],
          ExecCommand True ''/tools/npm'' [''publish''] ''/repo/a'' [],
          GitAddTag True ''a'' (Some ''1.0.0''), GitPush (Some ''master''),
          ConsoleLog (CHR 0x0A # ''Rush publish finished successfully.'')]
   \<and> through quiet [] (publish_all_calls (flags\<lparr>includeAll_value := True\<rparr>) repo quiet)
   \<and> run (flags\<lparr>includeAll_value := True\<rparr>) repo quiet initial
       = (Ok (), \<lparr>trace =
            [ValidatePolicy,
             ConsoleLog ''Rush publish starts with includeAll and version policy undefined'',
             NewPublishGit (Some ''master''), NpmPublishedVersions ''a'' ''/repo/a'' [],
             ExecCommand True ''/tools/npm'' [''publish''] ''/repo/a'' [],
             GitAddTag True ''a'' (Some ''1.0.0''), GitPush (Some ''master''),
             ConsoleLog (CHR 0x0A # ''Rush publish finished successfully.'')],
            hotfixTagOverride = None\<rparr>)
   \<and> \<not> through jammed [] (publish_all_calls (flags\<lparr>includeAll_value := True\<rparr>) repo jammed)
   \<and> fst (run (flags\<lparr>includeAll_value := True\<rparr>) repo jammed initial) \<noteq> Ok ()
   \<and> snd (run (flags\<lparr>includeAll_value := True\<rparr>) repo jammed initial)
       = \<lparr>trace =
            [ValidatePolicy,
             ConsoleLog ''Rush publish starts with includeAll and version policy undefined'',
             NewPublishGit (Some ''master''), NpmPublishedVersions ''a'' ''/repo/a'' [],
             ExecCommand True ''/tools/npm'' [''publish''] ''/repo/a'' []],
          hotfixTagOverride = None\<rparr>
   \<and> \<not> invalid_combination (flags\<lparr>includeAll_value := True, pack_value := True,
                                     releaseType_value := Some ''beta''\<rparr>)
   \<and> \<not> invalid_releaseType (flags\<lparr>includeAll_value := True, pack_value := True,
                                     releaseType_value := Some ''beta''\<rparr>)
   \<and> run (flags\<lparr>includeAll_value := True, pack_value := True,
                releaseType_value := Some ''beta''\<rparr>) repo packing initial
       = (Ok (), \<lparr>trace =
            [ValidatePolicy,
             ConsoleLog ''Rush publish starts with includeAll and version policy undefined'',
             NewPublishGit (Some ''master''),
             JsonFileLoad ''/repo/a/config/api-extractor.json'',
             FileSystemReadFolder ''/repo/a/./dist/beta'',
             FileSystemCopyFile ''/repo/a/./dist/beta/index.d.ts'' ''/repo/a/./dist/index.d.ts'',
             ConsoleLog ''Copied file index.d.ts from /repo/a/./dist/beta to /repo/a/./dist'',
             ExecCommand True ''/tools/npm'' [''pack''] ''/repo/a'' [],
             FileSystemMove ''/repo/a/a-1.0.0.tgz''
               ''/repo/common/temp/artifacts/packages/a-1.0.0.tgz'' True,
             ConsoleLog (CHR 0x0A # ''Rush publish finished successfully.'')],
            hotfixTagOverride = None\<rparr>)
   \<and> \<not> qualifies (flags\<lparr>includeAll_value := True\<rparr>) projectB
   \<and> publishAll_callback (flags\<lparr>includeAll_value := True\<rparr>) repo quiet (''b'', projectB) False
       initial = (Ok False, initial)
   \<and> publishAll (flags\<lparr>includeAll_value := True\<rparr>) repo quiet (projectsByName repo) initial
       = (Ok (), \<lparr>trace =
            [ConsoleLog ''Rush publish starts with includeAll and version policy undefined'',
             NewPublishGit (Some ''master''), NpmPublishedVersions ''a'' ''/repo/a'' [],
             ExecCommand True ''/tools/npm'' [''publish''] ''/repo/a'' [],
             GitAddTag True ''a'' (Some ''1.0.0''), GitPush (Some ''master'')],
            hotfixTagOverride = None\<rparr>)
   \<and> (\<exists>evs. [ConsoleLog ''Rush publish starts with includeAll and version policy undefined'',
              NewPublishGit (Some ''master''), NpmPublishedVersions ''a'' ''/repo/a'' [],
              ExecCommand True ''/tools/npm'' [''publish''] ''/repo/a'' [],
              GitAddTag True ''a'' (Some ''1.0.0''), GitPush (Some ''master'')]
             = trace initial @ evs
          \<and> filter is_push evs
              = (if list_ex is_npm_publish evs
                 then [GitPush (targetBranch_value (flags\<lparr>includeAll_value := True\<rparr>))] else []))
   \<and> publish_value (flags\<lparr>includeAll_value := True\<rparr>)
   \<and> list_ex is_executed_publish
        (trace (snd (run (flags\<lparr>includeAll_value := True\<rparr>) repo quiet initial)))"
proof -
  let ?p = "flags\<lparr>includeAll_value := True\<rparr>"
  let ?s' = "\<lparr>trace =
            [ConsoleLog ''Rush publish starts with includeAll and version policy undefined'',
             NewPublishGit (Some ''master''), NpmPublishedVersions ''a'' ''/repo/a'' [],
             ExecCommand True ''/tools/npm'' [''publish''] ''/repo/a'' [],
             GitAddTag True ''a'' (Some ''1.0.0''), GitPush (Some ''master'')],
            hotfixTagOverride = None\<rparr>"
  have h: "\<not> regenerateChangelogs_value ?p" "includeAll_value ?p" "\<not> invalid_combination ?p"
    "distinct (map fst (projectsByName repo))" "\<not> invalid_releaseType ?p" "publish_value ?p"
    by (simp_all add: flags_def repo_def invalid_combination_def invalid_releaseType_def)
  let ?q = "flags\<lparr>includeAll_value := True, pack_value := True, releaseType_value := Some ''beta''\<rparr>"
  have hq: "\<not> regenerateChangelogs_value ?q" "includeAll_value ?q" "\<not> invalid_combination ?q"
    "\<not> invalid_releaseType ?q"
    by (simp_all add: flags_def invalid_combination_def invalid_releaseType_def)
  have cq: "publish_all_calls ?q repo packing
       = [ValidatePolicy,
          ConsoleLog ''Rush publish starts with includeAll and version policy undefined'',
          NewPublishGit (Some ''master''),
          JsonFileLoad ''/repo/a/config/api-extractor.json'',
          FileSystemReadFolder ''/repo/a/./dist/beta'',
          FileSystemCopyFile ''/repo/a/./dist/beta/index.d.ts'' ''/repo/a/./dist/index.d.ts'',
          ConsoleLog ''Copied file index.d.ts from /repo/a/./dist/beta to /repo/a/./dist'',
          ExecCommand True ''/tools/npm'' [''pack''] ''/repo/a'' [],
          FileSystemMove ''/repo/a/a-1.0.0.tgz''
            ''/repo/common/temp/artifacts/packages/a-1.0.0.tgz'' True,
          ConsoleLog (CHR 0x0A # ''Rush publish finished successfully.'')]"
    by (simp add: publish_all_calls_def descriptor_events_def pack_events_def api_events_def
          copy_events_def calculateTarballName_def qualifies_def example_defs packing_def Let_def)
  have fq: "fails packing = (\<lambda>h e. False)" by (simp add: packing_def quiet_def)
  have nq: "\<not> qualifies ?p projectB" by (simp add: qualifies_def projectB_def)
  have calls: "publish_all_calls ?p repo quiet
       = [ValidatePolicy,
          ConsoleLog ''Rush publish starts with includeAll and version policy undefined'',
          NewPublishGit (Some ''master''), NpmPublishedVersions ''a'' ''/repo/a'' [],
          ExecCommand True ''/tools/npm'' [''publish''] ''/repo/a'' [],
          GitAddTag True ''a'' (Some ''1.0.0''), GitPush (Some ''master''),
          ConsoleLog (CHR 0x0A # ''Rush publish finished successfully.'')]"
    "publish_all_calls ?p repo jammed
       = [ValidatePolicy,
          ConsoleLog ''Rush publish starts with includeAll and version policy undefined'',
          NewPublishGit (Some ''master''), NpmPublishedVersions ''a'' ''/repo/a'' [],
          ExecCommand True ''/tools/npm'' [''publish''] ''/repo/a'' [],
          GitAddTag True ''a'' (Some ''1.0.0''), GitPush (Some ''master''),
          ConsoleLog (CHR 0x0A # ''Rush publish finished successfully.'')]"
    by (simp_all add: publish_all_calls_def descriptor_events_def publish_and_tag_def
          publishCommand_def publishArgs_def query_def published_def registryEnv_def qualifies_def
          example_defs jammed_def Let_def)
  have f: "fails quiet = (\<lambda>h e. False)" "fails jammed = (\<lambda>h e. is_npm_publish e)"
    by (simp_all add: quiet_def jammed_def)
  have r: "publishAll ?p repo quiet (projectsByName repo) initial = (Ok (), ?s')"
    by (simp add: run_defs example_defs)
  note quiet_run = publish_all_qualifies_and_pushes_once
                     [of ?p repo quiet "''b''" projectB False initial ?s']
  note jammed_run = publish_all_qualifies_and_pushes_once
                      [of ?p repo jammed "''b''" projectB False initial ?s']
  note packing_run = publish_all_qualifies_and_pushes_once
                       [of ?q repo packing "''b''" projectB False initial ?s']
  have t: "through quiet [] (publish_all_calls ?p repo quiet)"
    "\<not> through jammed [] (publish_all_calls ?p repo jammed)"
    "through packing [] (publish_all_calls ?q repo packing)"
    unfolding calls cq by (simp_all add: f fq)
  have u: "until_failure quiet [] (publish_all_calls ?p repo quiet)
             = publish_all_calls ?p repo quiet"
    "until_failure packing [] (publish_all_calls ?q repo packing)
             = publish_all_calls ?q repo packing"
    using t by (simp_all add: until_failure_through)
  have uj: "until_failure jammed [] (publish_all_calls ?p repo jammed)
       = [ValidatePolicy,
          ConsoleLog ''Rush publish starts with includeAll and version policy undefined'',
          NewPublishGit (Some ''master''), NpmPublishedVersions ''a'' ''/repo/a'' [],
          ExecCommand True ''/tools/npm'' [''publish''] ''/repo/a'' []]"
    unfolding calls by (simp add: f)
  have A: "run ?p repo quiet initial = (Ok (), \<lparr>trace = publish_all_calls ?p repo quiet,
                                                  hotfixTagOverride = None\<rparr>)"
    using quiet_run h t(1) u(1) by (cases "run ?p repo quiet initial") simp
  have B: "fst (run ?p repo jammed initial) \<noteq> Ok ()"
    "snd (run ?p repo jammed initial)
       = \<lparr>trace = until_failure jammed [] (publish_all_calls ?p repo jammed),
          hotfixTagOverride = None\<rparr>"
    using jammed_run h t(2) by simp_all
  have C: "run ?q repo packing initial = (Ok (), \<lparr>trace = publish_all_calls ?q repo packing,
                                                    hotfixTagOverride = None\<rparr>)"
    using packing_run hq h(4) t(3) u(2) by (cases "run ?q repo packing initial") simp
  have D: "publishAll_callback ?p repo quiet (''b'', projectB) False initial = (Ok False, initial)"
    using quiet_run nq by simp
  have E: "\<exists>evs. trace ?s' = trace initial @ evs
          \<and> filter is_push evs
              = (if list_ex is_npm_publish evs then [GitPush (targetBranch_value ?p)] else [])"
    using quiet_run h(4) r by blast
  have F: "list_ex is_executed_publish (trace (snd (run ?p repo quiet initial)))"
    using quiet_run h(6) by (simp add: A calls)
  show ?thesis
    using h hq nq A B C D E F r
    unfolding uj calls cq
    by (simp add: f fq)
qed

end
